theory Spec2Isabelle
  imports Main "HOL-Library.Word"
begin

section \<open>The generic SQL repository of \<^verbatim>\<open>pkg/repository\<close>\<close>

text \<open>
  A shallow embedding of \<^verbatim>\<open>repository.go\<close> and \<^verbatim>\<open>contract.go\<close>. The Go code is
  generic over an entity type \<^verbatim>\<open>E\<close>, talks to a SQL connection and inspects and
  mutates the entities it is given through \<^verbatim>\<open>reflect\<close>. The embedding makes these
  explicit:
  \<^item> the type argument \<^verbatim>\<open>E\<close> is a value of \<open>go_type\<close> (its fields with their \<^verbatim>\<open>db\<close>
    tags and kinds, its method names by receiver);
  \<^item> entities are passed as pointers (\<^verbatim>\<open>[]*E\<close>), so they live in a heap from addresses
    to values and \<^verbatim>\<open>SaveAll\<close> returns the updated heap;
  \<^item> the connection is a record of three functions over an opaque store, and every
    statement handed to it is appended to a log;
  \<^item> a result is \<open>failure + 'a\<close>: a panic, an error made by \<^verbatim>\<open>fmt.Errorf\<close> or an
    error of the driver, returned unchanged.

  What the embedding takes for granted: \<^verbatim>\<open>int\<close> has 64 bits; struct tags and field
  names are ASCII; a method of \<^verbatim>\<open>E\<close> is a function of its receiver that returns or
  panics; a struct type is the list of its top-level fields.
\<close>

subsection \<open>Strings: the functions of package \<^verbatim>\<open>strings\<close> the code calls\<close>

text \<open>\<^verbatim>\<open>strings.Split(s, ",")\<close>: the pieces between commas; never the empty slice.\<close>

fun Split :: "string \<Rightarrow> string list" where
  "Split [] = [[]]"
| "Split (c # cs) =
     (if c = CHR '','' then [] # Split cs
      else (case Split cs of [] \<Rightarrow> [[c]] | w # ws \<Rightarrow> (c # w) # ws))"

text \<open>
  \<^verbatim>\<open>strings.TrimSpace\<close>, on ASCII: space, \<^verbatim>\<open>\t\<close>, \<^verbatim>\<open>\n\<close>, \<^verbatim>\<open>\v\<close>, \<^verbatim>\<open>\f\<close>, \<^verbatim>\<open>\r\<close>.
  (Go also trims the Unicode white space beyond ASCII; struct tags are taken to be ASCII.)
\<close>

definition isSpace :: "char \<Rightarrow> bool" where
  "isSpace c = (c = CHR '' '' \<or> c = CHR 0x09 \<or> c = CHR 0x0A \<or> c = CHR 0x0B
                \<or> c = CHR 0x0C \<or> c = CHR 0x0D)"

definition TrimSpace :: "string \<Rightarrow> string" where
  "TrimSpace s = rev (dropWhile isSpace (rev (dropWhile isSpace s)))"

text \<open>\<^verbatim>\<open>strings.Join(elems, sep)\<close>.\<close>

fun Join :: "string list \<Rightarrow> string \<Rightarrow> string" where
  "Join [] sep = []"
| "Join [x] sep = x"
| "Join (x # y # ys) sep = x @ sep @ Join (y # ys) sep"

text \<open>\<^verbatim>\<open>strings.TrimSuffix(s, suffix)\<close>: \<open>s\<close> without the suffix when it ends with it.\<close>

definition TrimSuffix :: "string \<Rightarrow> string \<Rightarrow> string" where
  "TrimSuffix s suf =
     (if length suf \<le> length s \<and> drop (length s - length suf) s = suf
      then take (length s - length suf) s else s)"

subsection \<open>Types, as \<^verbatim>\<open>reflect\<close> and the type checker see them\<close>

text \<open>\<^verbatim>\<open>reflect.Kind\<close>; \<open>KOther\<close> stands for the kinds the code never tells apart
  (arrays, slices, maps, channels, functions, complex numbers).\<close>

datatype kind =
    KBool | KInt | KInt8 | KInt16 | KInt32 | KInt64
  | KUint | KUint8 | KUint16 | KUint32 | KUint64 | KUintptr
  | KFloat32 | KFloat64 | KString | KStruct | KPtr | KInterface | KOther

text \<open>
  \<^verbatim>\<open>reflect.StructField\<close>, as far as the code reads it: the field's name, the value of
  its \<^verbatim>\<open>db\<close> tag (\<^verbatim>\<open>field.Tag.Get("db")\<close>, empty when the tag is absent) and the kind of
  its type.
\<close>

record struct_field =
  Name :: string
  Tag_db :: string
  Kind :: kind

text \<open>
  A type argument for \<^verbatim>\<open>E\<close>: a struct type or another defined type, each with the names
  of the methods declared on the value receiver and on the pointer receiver; a pointer
  type; an interface type with its method names. Methods are identified by name.
\<close>

datatype go_type =
    StructT "struct_field list" "string list" "string list"
  | DefinedT kind "string list" "string list"
  | PtrT go_type
  | IfaceT "string list"

text \<open>
  The method set of a type (Go specification, "Method sets"): a defined type has the
  methods of its value receiver, a pointer to a defined type has those of both
  receivers, an interface has its own, and any other type (a pointer to a pointer, a
  pointer to an interface) has none.
\<close>

fun method_set :: "go_type \<Rightarrow> string list" where
  "method_set (StructT fs vm pm) = vm"
| "method_set (DefinedT k vm pm) = vm"
| "method_set (IfaceT ms) = ms"
| "method_set (PtrT (StructT fs vm pm)) = vm @ pm"
| "method_set (PtrT (DefinedT k vm pm)) = vm @ pm"
| "method_set (PtrT (PtrT t)) = []"
| "method_set (PtrT (IfaceT ms)) = []"

text \<open>The interface \<^verbatim>\<open>Entity[ID]\<close> of \<^verbatim>\<open>contract.go\<close> and what implements it.\<close>

definition Entity :: "string list" where
  "Entity = [''GetID'', ''GetTableName'', ''ToMap'']"

definition implements :: "go_type \<Rightarrow> string list \<Rightarrow> bool" where
  "implements t iface = list_all (\<lambda>m. m \<in> set (method_set t)) iface"

text \<open>\<^verbatim>\<open>StructField.IsExported\<close>: the name starts with an upper-case letter (ASCII).\<close>

definition IsExported :: "struct_field \<Rightarrow> bool" where
  "IsExported f = (case Name f of [] \<Rightarrow> False
                   | c # cs \<Rightarrow> (65::nat) \<le> of_char c \<and> of_char c \<le> (90::nat))"

subsection \<open>Values, the heap and the connection\<close>

text \<open>
  Go values. An integer of any signed kind is \<open>IntV\<close> of its value; \<open>OtherV\<close> stands
  for the values the code only passes on. A pointer is an address or \<^verbatim>\<open>nil\<close>.
\<close>

type_synonym ptr = "nat option"

datatype go_value =
    IntV int | UintV nat | StrV string | BoolV bool
  | PtrV ptr | StructV "go_value list" | NilV | OtherV nat

type_synonym heap = "nat \<Rightarrow> go_value option"

definition deref :: "heap \<Rightarrow> ptr \<Rightarrow> go_value option" where
  "deref h p = (case p of None \<Rightarrow> None | Some a \<Rightarrow> h a)"

text \<open>The zero value of a type: \<^verbatim>\<open>var emptyEntity E\<close>.\<close>

fun zero_of_kind :: "kind \<Rightarrow> go_value" where
  "zero_of_kind KBool = BoolV False"
| "zero_of_kind KInt = IntV 0"
| "zero_of_kind KInt8 = IntV 0"
| "zero_of_kind KInt16 = IntV 0"
| "zero_of_kind KInt32 = IntV 0"
| "zero_of_kind KInt64 = IntV 0"
| "zero_of_kind KUint = UintV 0"
| "zero_of_kind KUint8 = UintV 0"
| "zero_of_kind KUint16 = UintV 0"
| "zero_of_kind KUint32 = UintV 0"
| "zero_of_kind KUint64 = UintV 0"
| "zero_of_kind KUintptr = UintV 0"
| "zero_of_kind KString = StrV []"
| "zero_of_kind KPtr = PtrV None"
| "zero_of_kind KInterface = NilV"
| "zero_of_kind k = OtherV 0"

fun zero_value :: "go_type \<Rightarrow> go_value" where
  "zero_value (StructT fs vm pm) = StructV (map (\<lambda>f. zero_of_kind (Kind f)) fs)"
| "zero_value (DefinedT k vm pm) = zero_of_kind k"
| "zero_value (PtrT t) = PtrV None"
| "zero_value (IfaceT ms) = NilV"

text \<open>
  What can go wrong: a run-time panic, an error the repository makes with
  \<^verbatim>\<open>fmt.Errorf\<close> (the message), or an error of the driver, which the repository
  returns as it got it.
\<close>

datatype failure = Panic | Errorf string | DriverError string

definition NotFound :: failure where
  "NotFound = Errorf ''entity not found''"

definition ValidationError :: failure where
  "ValidationError = Errorf ''entity does not implement the Entity interface''"

text \<open>\<^verbatim>\<open>sql.Result\<close>: \<^verbatim>\<open>LastInsertId()\<close> gives an \<^verbatim>\<open>int64\<close> or an error.\<close>

record sql_result =
  LastInsertId :: "string + 64 word"

text \<open>
  The connection \<^verbatim>\<open>*sqlx.DB\<close>: \<^verbatim>\<open>Exec\<close>, \<^verbatim>\<open>Select\<close> into a slice of entities and
  \<^verbatim>\<open>Get\<close> of one integer, each from the store, the statement and its arguments to an
  error message or a result, and the store afterwards. The rows \<^verbatim>\<open>Select\<close> scans
  into fresh entities are the list of these entities' values.
\<close>

record 'b conn =
  Exec :: "'b \<Rightarrow> string \<Rightarrow> go_value list \<Rightarrow> (string + sql_result) \<times> 'b"
  Select :: "'b \<Rightarrow> string \<Rightarrow> go_value list \<Rightarrow> (string + go_value list) \<times> 'b"
  Get :: "'b \<Rightarrow> string \<Rightarrow> go_value list \<Rightarrow> (string + int) \<times> 'b"

text \<open>A statement handed to the connection.\<close>

datatype call =
    ExecCall string "go_value list"
  | SelectCall string "go_value list"
  | GetCall string "go_value list"

text \<open>
  \<^verbatim>\<open>entityRepository[E, ID]\<close>: the connection, the type argument \<^verbatim>\<open>E\<close> and the two
  methods of \<^verbatim>\<open>E\<close> the code calls, as functions of the receiver (\<open>None\<close>: the call
  panics, as a value method on a \<^verbatim>\<open>nil\<close> receiver does).
\<close>

record 'b repo =
  DB :: "'b conn"
  EType :: go_type
  GetID :: "go_value \<Rightarrow> go_value option"
  GetTableName :: "go_value \<Rightarrow> string option"

text \<open>The world a call runs in: the heap, the store behind the connection, the log.\<close>

record 'b state =
  heap :: heap
  store :: 'b
  issued :: "call list"

type_synonym ('a, 'b) outcome = "(failure + 'a) \<times> 'b state"

text \<open>The three ways the code reaches the connection.\<close>

definition db_Exec :: "'b repo \<Rightarrow> string \<Rightarrow> go_value list \<Rightarrow> 'b state \<Rightarrow> (sql_result, 'b) outcome" where
  "db_Exec r query args s =
     (case Exec (DB r) (store s) query args of
        (res, b) \<Rightarrow>
          ((case res of Inl msg \<Rightarrow> Inl (DriverError msg) | Inr x \<Rightarrow> Inr x),
           s\<lparr>store := b, issued := issued s @ [ExecCall query args]\<rparr>))"

definition db_Select :: "'b repo \<Rightarrow> string \<Rightarrow> go_value list \<Rightarrow> 'b state \<Rightarrow> (go_value list, 'b) outcome" where
  "db_Select r query args s =
     (case Select (DB r) (store s) query args of
        (res, b) \<Rightarrow>
          ((case res of Inl msg \<Rightarrow> Inl (DriverError msg) | Inr x \<Rightarrow> Inr x),
           s\<lparr>store := b, issued := issued s @ [SelectCall query args]\<rparr>))"

definition db_Get :: "'b repo \<Rightarrow> string \<Rightarrow> go_value list \<Rightarrow> 'b state \<Rightarrow> (int, 'b) outcome" where
  "db_Get r query args s =
     (case Get (DB r) (store s) query args of
        (res, b) \<Rightarrow>
          ((case res of Inl msg \<Rightarrow> Inl (DriverError msg) | Inr x \<Rightarrow> Inr x),
           s\<lparr>store := b, issued := issued s @ [GetCall query args]\<rparr>))"

subsection \<open>Reading: \<^verbatim>\<open>FindAll\<close>, \<^verbatim>\<open>FindAllByID\<close>, \<^verbatim>\<open>FindByID\<close>, \<^verbatim>\<open>ExistsByID\<close>\<close>

text \<open>\<^verbatim>\<open>var emptyEntity E; tableName := emptyEntity.GetTableName()\<close>.\<close>

definition emptyEntity_table :: "'b repo \<Rightarrow> string option" where
  "emptyEntity_table r = GetTableName r (zero_value (EType r))"

definition FindAll :: "'b repo \<Rightarrow> 'b state \<Rightarrow> (go_value list, 'b) outcome" where
  "FindAll r s =
     (case emptyEntity_table r of
        None \<Rightarrow> (Inl Panic, s)
      | Some tableName \<Rightarrow> db_Select r (''SELECT * FROM '' @ tableName) [] s)"

text \<open>
  The loop \<^verbatim>\<open>for i, id := range ids { idStrings[i] = "?"; args[i] = id }\<close> of
  \<^verbatim>\<open>FindAllByID\<close> and \<^verbatim>\<open>DeleteByIDs\<close>.
\<close>

fun id_placeholders :: "go_value list \<Rightarrow> string list \<times> go_value list" where
  "id_placeholders [] = ([], [])"
| "id_placeholders (idv # ids) =
     (case id_placeholders ids of (idStrings, args) \<Rightarrow> (''?'' # idStrings, idv # args))"

definition FindAllByID :: "'b repo \<Rightarrow> go_value list \<Rightarrow> 'b state \<Rightarrow> (go_value list, 'b) outcome" where
  "FindAllByID r ids s =
     (case emptyEntity_table r of
        None \<Rightarrow> (Inl Panic, s)
      | Some tableName \<Rightarrow>
          (case id_placeholders ids of
             (idStrings, args) \<Rightarrow>
               db_Select r
                 (''SELECT * FROM '' @ tableName @ '' WHERE id IN ('' @ Join idStrings '','' @ '')'')
                 args s))"

definition FindByID :: "'b repo \<Rightarrow> go_value \<Rightarrow> 'b state \<Rightarrow> (go_value, 'b) outcome" where
  "FindByID r idv s =
     (case FindAllByID r [idv] s of
        (Inl err, s') \<Rightarrow> (Inl err, s')
      | (Inr entities, s') \<Rightarrow>
          (case entities of
             [] \<Rightarrow> (Inl (Errorf ''entity not found''), s')
           | e # es \<Rightarrow> (Inr e, s')))"

definition ExistsByID :: "'b repo \<Rightarrow> go_value \<Rightarrow> 'b state \<Rightarrow> (unit, 'b) outcome" where
  "ExistsByID r idv s =
     (case FindAllByID r [idv] s of
        (Inl err, s') \<Rightarrow> (Inl err, s')
      | (Inr entities, s') \<Rightarrow>
          (if length entities = 0 then (Inl (Errorf ''entity not found''), s')
           else (Inr (), s')))"

subsection \<open>\<^verbatim>\<open>FindAllPaginated\<close>\<close>

record pagination =
  Limit :: int
  Offset :: int

record paginated_result =
  Pagination :: pagination
  TotalCount :: int
  Results :: "go_value list"

definition FindAllPaginated :: "'b repo \<Rightarrow> pagination \<Rightarrow> 'b state \<Rightarrow> (paginated_result, 'b) outcome" where
  "FindAllPaginated r p s =
     (case emptyEntity_table r of
        None \<Rightarrow> (Inl Panic, s)
      | Some tableName \<Rightarrow>
          (case db_Select r (''SELECT * FROM '' @ tableName @ '' LIMIT ? OFFSET ?'')
                  [IntV (Limit p), IntV (Offset p)] s of
             (Inl err, s1) \<Rightarrow> (Inl err, s1)
           | (Inr entities, s1) \<Rightarrow>
               (case db_Get r (''SELECT COUNT(*) FROM '' @ tableName) [] s1 of
                  (Inl err, s2) \<Rightarrow> (Inl err, s2)
                | (Inr totalCount, s2) \<Rightarrow>
                    (Inr \<lparr>Pagination = p, TotalCount = totalCount, Results = entities\<rparr>, s2))))"

subsection \<open>Deleting\<close>

definition DeleteByIDs :: "'b repo \<Rightarrow> go_value list \<Rightarrow> 'b state \<Rightarrow> (unit, 'b) outcome" where
  "DeleteByIDs r ids s =
     (case emptyEntity_table r of
        None \<Rightarrow> (Inl Panic, s)
      | Some tableName \<Rightarrow>
          (case id_placeholders ids of
             (idStrings, args) \<Rightarrow>
               (case db_Exec r
                       (''DELETE FROM '' @ tableName @ '' WHERE id IN ('' @ Join idStrings '','' @ '')'')
                       args s of
                  (Inl err, s') \<Rightarrow> (Inl err, s')
                | (Inr res, s') \<Rightarrow> (Inr (), s'))))"

definition DeleteByID :: "'b repo \<Rightarrow> go_value \<Rightarrow> 'b state \<Rightarrow> (unit, 'b) outcome" where
  "DeleteByID r idv s = DeleteByIDs r [idv] s"

definition DeleteAll :: "'b repo \<Rightarrow> 'b state \<Rightarrow> (unit, 'b) outcome" where
  "DeleteAll r s =
     (case emptyEntity_table r of
        None \<Rightarrow> (Inl Panic, s)
      | Some tableName \<Rightarrow>
          (case db_Exec r (''DELETE FROM '' @ tableName) [] s of
             (Inl err, s') \<Rightarrow> (Inl err, s')
           | (Inr res, s') \<Rightarrow> (Inr (), s')))"

text \<open>
  The loop of \<^verbatim>\<open>DeleteEntities\<close>. The assertion \<^verbatim>\<open>any(entity).(Entity[ID])\<close> is on a
  value of type \<^verbatim>\<open>*E\<close>; \<^verbatim>\<open>GetID\<close> through it reads the entity the pointer leads to,
  and panics on \<^verbatim>\<open>nil\<close>.
\<close>

fun entity_ids :: "'b repo \<Rightarrow> heap \<Rightarrow> ptr list \<Rightarrow> failure + go_value list" where
  "entity_ids r h [] = Inr []"
| "entity_ids r h (entity # rest) =
     (if \<not> implements (PtrT (EType r)) Entity then Inl ValidationError
      else (case deref h entity of
              None \<Rightarrow> Inl Panic
            | Some v \<Rightarrow>
                (case GetID r v of
                   None \<Rightarrow> Inl Panic
                 | Some idv \<Rightarrow>
                     (case entity_ids r h rest of
                        Inl err \<Rightarrow> Inl err
                      | Inr ids \<Rightarrow> Inr (idv # ids)))))"

definition DeleteEntities :: "'b repo \<Rightarrow> ptr list \<Rightarrow> 'b state \<Rightarrow> (unit, 'b) outcome" where
  "DeleteEntities r entities s =
     (case entity_ids r (heap s) entities of
        Inl err \<Rightarrow> (Inl err, s)
      | Inr ids \<Rightarrow> DeleteByIDs r ids s)"

definition DeleteEntity :: "'b repo \<Rightarrow> ptr \<Rightarrow> 'b state \<Rightarrow> (unit, 'b) outcome" where
  "DeleteEntity r entity s = DeleteEntities r [entity] s"

subsection \<open>\<^verbatim>\<open>SaveAll\<close> and \<^verbatim>\<open>Save\<close>\<close>

text \<open>
  The first loop of \<^verbatim>\<open>SaveAll\<close>, over the fields of the entity type: the columns, one
  placeholder for each, whether the \<^verbatim>\<open>id\<close> column is tagged \<^verbatim>\<open>autoincrement\<close>, and the
  field of that column (\<open>None\<close>: the zero \<^verbatim>\<open>reflect.StructField\<close>).
\<close>

type_synonym scan = "string list \<times> string list \<times> bool \<times> struct_field option"

fun scan_fields :: "struct_field list \<Rightarrow> scan \<Rightarrow> scan" where
  "scan_fields [] acc = acc"
| "scan_fields (field # rest) (columns, placeholders, idAutoIncrement, idField) =
     (let tagParts = map TrimSpace (Split (Tag_db field)) in
      (case tagParts of
         [] \<Rightarrow> scan_fields rest (columns, placeholders, idAutoIncrement, idField)
       | columnName # others \<Rightarrow>
           (if columnName = ''id'' then
              (let auto = (length tagParts > 1 \<and> ''autoincrement'' \<in> set tagParts) in
               if auto then scan_fields rest (columns, placeholders, auto, Some field)
               else scan_fields rest
                      (columns @ [columnName], placeholders @ [''?''], auto, Some field))
            else scan_fields rest
                   (columns @ [columnName], placeholders @ [''?''], idAutoIncrement, idField))))"

text \<open>
  \<^verbatim>\<open>entityValue.Field(i)\<close>, where \<^verbatim>\<open>entityValue\<close> is \<^verbatim>\<open>reflect.ValueOf(entity).Elem()\<close>:
  the zero \<^verbatim>\<open>Value\<close> for a \<^verbatim>\<open>nil\<close> pointer, on which \<^verbatim>\<open>Field\<close> panics.
\<close>

definition reflect_Field :: "go_value option \<Rightarrow> nat \<Rightarrow> go_value option" where
  "reflect_Field ev i =
     (case ev of
        Some (StructV vs) \<Rightarrow> (if i < length vs then Some (vs ! i) else None)
      | _ \<Rightarrow> None)"

text \<open>
  The inner loop of the second loop: the values of one entity, field by field from
  index \<open>i\<close>. \<^verbatim>\<open>Interface()\<close> panics on a field that is not exported.
\<close>

fun field_values :: "bool \<Rightarrow> go_value option \<Rightarrow> struct_field list \<Rightarrow> nat \<Rightarrow> failure + go_value list" where
  "field_values idAutoIncrement ev [] i = Inr []"
| "field_values idAutoIncrement ev (field # rest) i =
     (case Split (Tag_db field) of
        [] \<Rightarrow> Inl Panic
      | part # others \<Rightarrow>
          (if TrimSpace part = ''id'' \<and> idAutoIncrement
           then field_values idAutoIncrement ev rest (Suc i)
           else (case reflect_Field ev i of
                   None \<Rightarrow> Inl Panic
                 | Some v \<Rightarrow>
                     (if \<not> IsExported field then Inl Panic
                      else (case field_values idAutoIncrement ev rest (Suc i) of
                              Inl err \<Rightarrow> Inl err
                            | Inr vs \<Rightarrow> Inr (v # vs))))))"

text \<open>The second loop: the values of every entity and one placeholder group for each.\<close>

fun build_rows :: "bool \<Rightarrow> heap \<Rightarrow> struct_field list \<Rightarrow> string list \<Rightarrow> ptr list
    \<Rightarrow> go_value list \<times> string \<Rightarrow> failure + go_value list \<times> string" where
  "build_rows idAutoIncrement h flds placeholders [] acc = Inr acc"
| "build_rows idAutoIncrement h flds placeholders (entity # rest) (vals, query) =
     (case field_values idAutoIncrement (deref h entity) flds 0 of
        Inl err \<Rightarrow> Inl err
      | Inr vs \<Rightarrow>
          build_rows idAutoIncrement h flds placeholders rest
            (vals @ vs, query @ ''('' @ Join placeholders '','' @ ''),''))"

text \<open>
  \<^verbatim>\<open>Value.FieldByName\<close> on the top-level fields: the index of the first field of that
  name, nothing for the empty name.
\<close>

fun index_of_name :: "struct_field list \<Rightarrow> string \<Rightarrow> nat option" where
  "index_of_name [] name = None"
| "index_of_name (f # fs) name =
     (if Name f = name then Some 0 else map_option Suc (index_of_name fs name))"

definition FieldByName :: "struct_field list \<Rightarrow> string \<Rightarrow> nat option" where
  "FieldByName fs name = (if name = [] then None else index_of_name fs name)"

text \<open>
  \<^verbatim>\<open>Value.SetInt(x)\<close> on a field: it panics (\<open>None\<close>) when the field is not exported
  or its kind is not one of \<^verbatim>\<open>Int\<close>, \<^verbatim>\<open>Int8\<close>, \<^verbatim>\<open>Int16\<close>, \<^verbatim>\<open>Int32\<close>, \<^verbatim>\<open>Int64\<close>, and stores
  \<open>x\<close> converted to the field's width otherwise (\<^verbatim>\<open>int\<close> has 64 bits).
\<close>

fun int_bits :: "kind \<Rightarrow> nat option" where
  "int_bits KInt = Some 64"
| "int_bits KInt8 = Some 8"
| "int_bits KInt16 = Some 16"
| "int_bits KInt32 = Some 32"
| "int_bits KInt64 = Some 64"
| "int_bits k = None"

definition SetInt :: "struct_field \<Rightarrow> 64 word \<Rightarrow> go_value option" where
  "SetInt f x =
     (if \<not> IsExported f then None
      else (case int_bits (Kind f) of
              None \<Rightarrow> None
            | Some b \<Rightarrow> Some (IntV (signed_take_bit (b - 1) (sint x)))))"

text \<open>
  One step of the last loop:
  \<^verbatim>\<open>reflect.ValueOf(entity).Elem().FieldByName(idField.Name).SetInt(x)\<close>.
\<close>

definition set_key :: "struct_field list \<Rightarrow> string \<Rightarrow> heap \<Rightarrow> ptr \<Rightarrow> 64 word \<Rightarrow> heap option" where
  "set_key fs name h entity x =
     (case entity of
        None \<Rightarrow> None
      | Some a \<Rightarrow>
          (case h a of
             Some (StructV vs) \<Rightarrow>
               (case FieldByName fs name of
                  None \<Rightarrow> None
                | Some j \<Rightarrow>
                    (if j < length vs then
                       (case SetInt (fs ! j) x of
                          None \<Rightarrow> None
                        | Some v \<Rightarrow> Some (h(a \<mapsto> StructV (vs[j := v]))))
                     else None))
           | _ \<Rightarrow> None))"

text \<open>The last loop: entity \<open>i\<close> gets \<^verbatim>\<open>lastInsertID + int64(i)\<close>, in \<^verbatim>\<open>int64\<close>.\<close>

fun backfill :: "struct_field list \<Rightarrow> string \<Rightarrow> 64 word \<Rightarrow> ptr list \<Rightarrow> nat \<Rightarrow> heap
    \<Rightarrow> (failure + unit) \<times> heap" where
  "backfill fs name lastInsertID [] i h = (Inr (), h)"
| "backfill fs name lastInsertID (entity # rest) i h =
     (case set_key fs name h entity (lastInsertID + of_nat i) of
        None \<Rightarrow> (Inl Panic, h)
      | Some h' \<Rightarrow> backfill fs name lastInsertID rest (Suc i) h')"

definition SaveAll :: "'b repo \<Rightarrow> ptr list \<Rightarrow> 'b state \<Rightarrow> (unit, 'b) outcome" where
  "SaveAll r entities s =
     (case entities of
        [] \<Rightarrow> (Inr (), s)
      | firstEntity # others \<Rightarrow>
          (case deref (heap s) firstEntity of
             None \<Rightarrow> (Inl Panic, s)
           | Some firstValue \<Rightarrow>
               (if \<not> implements (PtrT (EType r)) Entity
                then (Inl (Errorf ''entity does not implement the Entity interface''), s)
                else
                  (case EType r of
                     StructT flds vm pm \<Rightarrow>
                       (case scan_fields flds ([], [], False, None) of
                          (columns, placeholders, idAutoIncrement, idField) \<Rightarrow>
                            (case GetTableName r firstValue of
                               None \<Rightarrow> (Inl Panic, s)
                             | Some tableName \<Rightarrow>
                                 (case build_rows idAutoIncrement (heap s) flds placeholders entities
                                         ([], ''INSERT INTO '' @ tableName @ '' (''
                                               @ Join columns '','' @ '') VALUES '') of
                                    Inl err \<Rightarrow> (Inl err, s)
                                  | Inr (vals, query) \<Rightarrow>
                                      (case db_Exec r (TrimSuffix query '','') vals s of
                                         (Inl err, s1) \<Rightarrow> (Inl err, s1)
                                       | (Inr result, s1) \<Rightarrow>
                                           (if idAutoIncrement then
                                              (case LastInsertId result of
                                                 Inl msg \<Rightarrow> (Inl (DriverError msg), s1)
                                               | Inr lastInsertID \<Rightarrow>
                                                   (case backfill flds
                                                           (case idField of None \<Rightarrow> [] | Some f \<Rightarrow> Name f)
                                                           lastInsertID entities 0 (heap s1) of
                                                      (res, h) \<Rightarrow> (res, s1\<lparr>heap := h\<rparr>)))
                                            else (Inr (), s1))))))
                   | _ \<Rightarrow> (Inl Panic, s)))))"

definition Save :: "'b repo \<Rightarrow> ptr \<Rightarrow> 'b state \<Rightarrow> (unit, 'b) outcome" where
  "Save r entity s = SaveAll r [entity] s"

subsection \<open>The shape of an entity type, in the words of the specification\<close>

text \<open>
  The storage name of a field is the first part of its \<^verbatim>\<open>db\<close> tag, trimmed; a field is
  marked auto-generated when its tag has a further part \<^verbatim>\<open>autoincrement\<close>. The key field
  is the field whose storage name is \<^verbatim>\<open>id\<close> (the last one, should there be several);
  the persisted fields of an insert are all fields but an auto-generated key.
\<close>

definition column_name :: "struct_field \<Rightarrow> string" where
  "column_name f = (case Split (Tag_db f) of [] \<Rightarrow> [] | part # others \<Rightarrow> TrimSpace part)"

definition auto_generated :: "struct_field \<Rightarrow> bool" where
  "auto_generated f =
     (let tagParts = map TrimSpace (Split (Tag_db f))
      in length tagParts > 1 \<and> ''autoincrement'' \<in> set tagParts)"

definition generated_key :: "struct_field \<Rightarrow> bool" where
  "generated_key f = (column_name f = ''id'' \<and> auto_generated f)"

definition persisted :: "struct_field list \<Rightarrow> struct_field list" where
  "persisted fs = filter (\<lambda>f. \<not> generated_key f) fs"

definition key_field :: "struct_field list \<Rightarrow> struct_field option" where
  "key_field fs =
     (case filter (\<lambda>f. column_name f = ''id'') fs of [] \<Rightarrow> None | k # ks \<Rightarrow> Some (last (k # ks)))"

definition id_auto :: "struct_field list \<Rightarrow> bool" where
  "id_auto fs = (case key_field fs of None \<Rightarrow> False | Some kf \<Rightarrow> auto_generated kf)"

definition id_name :: "struct_field list \<Rightarrow> string" where
  "id_name fs = (case key_field fs of None \<Rightarrow> [] | Some f \<Rightarrow> Name f)"

text \<open>The values of the persisted fields of one entity, in field order.\<close>

definition persisted_values :: "struct_field list \<Rightarrow> go_value list \<Rightarrow> go_value list" where
  "persisted_values fs vs = map snd (filter (\<lambda>(f, v). \<not> generated_key f) (zip fs vs))"

text \<open>
  \<^verbatim>\<open>INSERT INTO <table> (<columns>) VALUES (<placeholders>), (<placeholders>), ...\<close> with
  \<open>n\<close> groups of placeholders.
\<close>

definition insert_query :: "string \<Rightarrow> struct_field list \<Rightarrow> nat \<Rightarrow> string" where
  "insert_query t fs n =
     ''INSERT INTO '' @ t @ '' ('' @ Join (map column_name (persisted fs)) '','' @ '') VALUES ''
       @ Join (replicate n (''('' @ Join (replicate (length (persisted fs)) ''?'') '','' @ '')'')) '',''"

text \<open>
  What the inner loop of the second loop skips, and the values it collects for one
  entity.
\<close>

definition skipped :: "bool \<Rightarrow> struct_field \<Rightarrow> bool" where
  "skipped ai f = (column_name f = ''id'' \<and> ai)"

definition row_values :: "bool \<Rightarrow> struct_field list \<Rightarrow> go_value list \<Rightarrow> go_value list" where
  "row_values ai fs vs = map snd (filter (\<lambda>(f, v). \<not> skipped ai f) (zip fs vs))"

text \<open>
  What the Go compiler guarantees of a struct type: no two fields share a name, the
  blank name \<^verbatim>\<open>_\<close> apart.
\<close>

definition wf_fields :: "struct_field list \<Rightarrow> bool" where
  "wf_fields fs = distinct (filter (\<lambda>n. n \<noteq> ''_'') (map Name fs))"

text \<open>
  A defined type that is neither a pointer nor an interface: the types whose pointer
  type has methods.
\<close>

definition is_defined_type :: "go_type \<Rightarrow> bool" where
  "is_defined_type t = (case t of StructT fs vm pm \<Rightarrow> True | DefinedT k vm pm \<Rightarrow> True | _ \<Rightarrow> False)"

subsection \<open>The sample entity of \<^verbatim>\<open>test_utils.go\<close> and a table in memory\<close>

text \<open>
  \<^verbatim>\<open>SampleEntity\<close>: \<^verbatim>\<open>Id int64 `db:"id,autoincrement"`\<close> and \<^verbatim>\<open>Name string `db:"name"`\<close>,
  with its three methods on the value receiver.
\<close>

definition SampleEntity_Id :: struct_field where
  "SampleEntity_Id = \<lparr>Name = ''Id'', Tag_db = ''id,autoincrement'', Kind = KInt64\<rparr>"

definition SampleEntity_Name :: struct_field where
  "SampleEntity_Name = \<lparr>Name = ''Name'', Tag_db = ''name'', Kind = KString\<rparr>"

definition SampleEntity :: go_type where
  "SampleEntity =
     StructT [SampleEntity_Id, SampleEntity_Name] [''GetID'', ''GetTableName'', ''ToMap''] []"

definition SampleEntity_GetID :: "go_value \<Rightarrow> go_value option" where
  "SampleEntity_GetID e = (case e of StructV (v # vs) \<Rightarrow> Some v | _ \<Rightarrow> None)"

definition SampleEntity_GetTableName :: "go_value \<Rightarrow> string option" where
  "SampleEntity_GetTableName e = (case e of StructV vs \<Rightarrow> Some ''sample_entities'' | _ \<Rightarrow> None)"

text \<open>
  A connection to run the repository against: the table of \<^verbatim>\<open>CreateSampleEntityTable\<close>
  (\<^verbatim>\<open>id BIGINT AUTO_INCREMENT PRIMARY KEY, name VARCHAR(255)\<close>) kept in memory. It
  answers the statements the repository makes for \<^verbatim>\<open>SampleEntity\<close> the way the tests
  expect of the database, reports the first identifier of a multi-row insert as
  \<^verbatim>\<open>LastInsertId\<close>, and rejects everything else, an empty \<^verbatim>\<open>IN ()\<close> included.
\<close>

record sample_table =
  Rows :: "go_value list"
  AutoIncrement :: "64 word"

definition starts_with :: "string \<Rightarrow> string \<Rightarrow> bool" where
  "starts_with p q = (take (length p) q = p)"

fun insert_rows :: "64 word \<Rightarrow> go_value list \<Rightarrow> go_value list" where
  "insert_rows n [] = []"
| "insert_rows n (a # as) = StructV [IntV (sint n), a] # insert_rows (n + 1) as"

definition id_in :: "go_value list \<Rightarrow> go_value \<Rightarrow> bool" where
  "id_in args row = (case row of StructV (v # vs) \<Rightarrow> v \<in> set args | _ \<Rightarrow> False)"

definition mem_Exec :: "sample_table \<Rightarrow> string \<Rightarrow> go_value list \<Rightarrow> (string + sql_result) \<times> sample_table" where
  "mem_Exec t q args =
     (if q = ''DELETE FROM sample_entities''
      then (Inr \<lparr>LastInsertId = Inr 0\<rparr>, t\<lparr>Rows := []\<rparr>)
      else if starts_with ''DELETE FROM sample_entities WHERE id IN ('' q
      then (if args = [] then (Inl ''syntax error'', t)
            else (Inr \<lparr>LastInsertId = Inr 0\<rparr>,
                  t\<lparr>Rows := filter (\<lambda>row. \<not> id_in args row) (Rows t)\<rparr>))
      else if starts_with ''INSERT INTO sample_entities (name) VALUES ('' q
      then (Inr \<lparr>LastInsertId = Inr (AutoIncrement t)\<rparr>,
            t\<lparr>Rows := Rows t @ insert_rows (AutoIncrement t) args,
              AutoIncrement := AutoIncrement t + of_nat (length args)\<rparr>)
      else (Inl ''syntax error'', t))"

definition mem_Select :: "sample_table \<Rightarrow> string \<Rightarrow> go_value list \<Rightarrow> (string + go_value list) \<times> sample_table" where
  "mem_Select t q args =
     (if q = ''SELECT * FROM sample_entities'' then (Inr (Rows t), t)
      else if q = ''SELECT * FROM sample_entities LIMIT ? OFFSET ?''
      then (case args of
              [IntV l, IntV off] \<Rightarrow>
                (if 0 \<le> l \<and> 0 \<le> off then (Inr (take (nat l) (drop (nat off) (Rows t))), t)
                 else (Inl ''syntax error'', t))
            | _ \<Rightarrow> (Inl ''syntax error'', t))
      else if starts_with ''SELECT * FROM sample_entities WHERE id IN ('' q
      then (if args = [] then (Inl ''syntax error'', t)
            else (Inr (filter (id_in args) (Rows t)), t))
      else (Inl ''syntax error'', t))"

definition mem_Get :: "sample_table \<Rightarrow> string \<Rightarrow> go_value list \<Rightarrow> (string + int) \<times> sample_table" where
  "mem_Get t q args =
     (if q = ''SELECT COUNT(*) FROM sample_entities'' then (Inr (int (length (Rows t))), t)
      else (Inl ''syntax error'', t))"

definition sample_repo :: "sample_table repo" where
  "sample_repo =
     \<lparr>DB = \<lparr>Exec = mem_Exec, Select = mem_Select, Get = mem_Get\<rparr>,
      EType = SampleEntity,
      GetID = SampleEntity_GetID,
      GetTableName = SampleEntity_GetTableName\<rparr>"

text \<open>
  Two entities \<^verbatim>\<open>{Name: "test"}\<close> and \<^verbatim>\<open>{Name: "test2"}\<close> at addresses 0 and 1 and an
  empty table whose next identifier is 1; and the table after the two were inserted.
\<close>

definition two_entities :: heap where
  "two_entities = [0 \<mapsto> StructV [IntV 0, StrV ''test''], 1 \<mapsto> StructV [IntV 0, StrV ''test2'']]"

definition two_pointers :: "ptr list" where
  "two_pointers = [Some 0, Some 1]"

definition fresh :: "sample_table state" where
  "fresh = \<lparr>heap = two_entities, store = \<lparr>Rows = [], AutoIncrement = 1\<rparr>, issued = []\<rparr>"

definition two_rows :: "sample_table state" where
  "two_rows =
     \<lparr>heap = Map.empty,
      store = \<lparr>Rows = [StructV [IntV 1, StrV ''test''], StructV [IntV 2, StrV ''test2'']],
               AutoIncrement = 3\<rparr>,
      issued = []\<rparr>"

text \<open>The same two entities and an empty table whose next identifier is the largest \<^verbatim>\<open>int64\<close>.\<close>

definition at_limit :: "sample_table state" where
  "at_limit =
     \<lparr>heap = two_entities, store = \<lparr>Rows = [], AutoIncrement = 9223372036854775807\<rparr>, issued = []\<rparr>"

text \<open>
  The repository instantiated with \<^verbatim>\<open>*SampleEntity\<close> for \<^verbatim>\<open>E\<close>, which the bound
  \<^verbatim>\<open>E Entity[ID]\<close> admits, and one entity of it: a pointer at address 0 to the pointer
  to the struct at address 1. (\<^verbatim>\<open>SaveAll\<close> returns before it calls a method.)
\<close>

definition pointer_repo :: "sample_table repo" where
  "pointer_repo = sample_repo\<lparr>EType := PtrT SampleEntity\<rparr>"

definition boxed :: "sample_table state" where
  "boxed = \<lparr>heap = [0 \<mapsto> PtrV (Some 1), 1 \<mapsto> StructV [IntV 0, StrV ''test'']],
            store = \<lparr>Rows = [], AutoIncrement = 1\<rparr>, issued = []\<rparr>"

text \<open>
  An entity type like \<^verbatim>\<open>SampleEntity\<close> whose key is a \<^verbatim>\<open>uint64\<close>, and one entity of it.
\<close>

definition UnsignedEntity_Id :: struct_field where
  "UnsignedEntity_Id = \<lparr>Name = ''Id'', Tag_db = ''id,autoincrement'', Kind = KUint64\<rparr>"

definition UnsignedEntity :: go_type where
  "UnsignedEntity =
     StructT [UnsignedEntity_Id, SampleEntity_Name] [''GetID'', ''GetTableName'', ''ToMap''] []"

definition unsigned_repo :: "sample_table repo" where
  "unsigned_repo = sample_repo\<lparr>EType := UnsignedEntity\<rparr>"

definition one_unsigned :: "sample_table state" where
  "one_unsigned = \<lparr>heap = [0 \<mapsto> StructV [UintV 0, StrV ''test'']],
                   store = \<lparr>Rows = [], AutoIncrement = 1\<rparr>, issued = []\<rparr>"

section \<open>Properties\<close>

subsection \<open>Auxiliary facts\<close>

lemma Split_not_Nil: "Split s \<noteq> []"
  by (induction s) (auto split: list.splits)

lemma id_placeholders_eq: "id_placeholders ids = (replicate (length ids) ''?'', ids)"
  by (induction ids) auto

lemma Join_Cons: "Join (x # xs) sep = x @ concat (map (\<lambda>y. sep @ y) xs)"
  by (induction xs arbitrary: x) auto

lemma count_list_append: "count_list (xs @ ys) c = count_list xs c + count_list ys c"
  by (induction xs) auto

lemma count_commas: "count_list (concat (replicate k xs)) c = k * count_list xs c"
  by (induction k) (auto simp: count_list_append)

lemma count_Join_placeholders: "count_list (Join (replicate n ''?'') '','') (CHR ''?'') = n"
proof (cases n)
  case 0
  then show ?thesis by simp
next
  case (Suc k)
  then show ?thesis by (simp add: Join_Cons count_commas)
qed

lemma db_Select_issued: "issued (snd (db_Select r q a s)) = issued s @ [SelectCall q a]"
  by (simp add: db_Select_def split: prod.splits)

lemma db_Exec_issued: "issued (snd (db_Exec r q a s)) = issued s @ [ExecCall q a]"
  by (simp add: db_Exec_def split: prod.splits)

lemma FindAllByID_eq:
  "emptyEntity_table r = Some t \<Longrightarrow>
   FindAllByID r ids s =
     db_Select r (''SELECT * FROM '' @ t @ '' WHERE id IN (''
                    @ Join (replicate (length ids) ''?'') '','' @ '')'') ids s"
  by (simp add: FindAllByID_def id_placeholders_eq)

lemma DeleteByIDs_snd:
  "emptyEntity_table r = Some t \<Longrightarrow>
   snd (DeleteByIDs r ids s) =
     snd (db_Exec r (''DELETE FROM '' @ t @ '' WHERE id IN (''
                    @ Join (replicate (length ids) ''?'') '','' @ '')'') ids s)"
  by (simp add: DeleteByIDs_def id_placeholders_eq split: prod.splits sum.splits)

lemma sample_table_name: "emptyEntity_table sample_repo = Some ''sample_entities''"
  by (simp add: emptyEntity_table_def sample_repo_def SampleEntity_def SampleEntity_GetTableName_def)

lemma implements_ptr_SampleEntity: "implements (PtrT (EType sample_repo)) Entity"
  by (simp add: implements_def Entity_def sample_repo_def SampleEntity_def)

lemma find_present:
  "FindAllByID sample_repo [IntV 1] two_rows =
     (Inr [StructV [IntV 1, StrV ''test'']],
      two_rows\<lparr>issued := [SelectCall ''SELECT * FROM sample_entities WHERE id IN (?)'' [IntV 1]]\<rparr>)"
  by (subst FindAllByID_eq [OF sample_table_name])
     (simp add: db_Select_def sample_repo_def mem_Select_def starts_with_def two_rows_def id_in_def)

lemma find_absent:
  "FindAllByID sample_repo [IntV 7] two_rows =
     (Inr [],
      two_rows\<lparr>issued := [SelectCall ''SELECT * FROM sample_entities WHERE id IN (?)'' [IntV 7]]\<rparr>)"
  by (subst FindAllByID_eq [OF sample_table_name])
     (simp add: db_Select_def sample_repo_def mem_Select_def starts_with_def two_rows_def id_in_def)

lemma entity_ids_keys:
  assumes "list_all2 (\<lambda>e k. \<exists>v. deref h e = Some v \<and> GetID r v = Some k) entities ids"
    and "entities \<noteq> [] \<longrightarrow> implements (PtrT (EType r)) Entity"
  shows "entity_ids r h entities = Inr ids"
  using assms
proof (induction rule: list_all2_induct)
  case Nil
  then show ?case by simp
next
  case (Cons e es k ks)
  have "entity_ids r h es = Inr ks"
    using Cons by (cases es) auto
  with Cons show ?case by auto
qed

lemma field_values_Panic: "field_values ai ev fs i = Inl e \<Longrightarrow> e = Panic"
  by (induction fs arbitrary: i e) (auto split: list.splits option.splits if_splits sum.splits)

lemma build_rows_Panic: "build_rows ai h fs phs es acc = Inl e \<Longrightarrow> e = Panic"
  by (induction es arbitrary: acc) (auto split: sum.splits dest: field_values_Panic)

lemma backfill_Panic: "backfill fs n lid es i h = (Inl e, h') \<Longrightarrow> e = Panic"
  by (induction es arbitrary: i h) (auto split: option.splits)

lemma db_Exec_Inl: "db_Exec r q a s = (Inl e, s') \<Longrightarrow> \<exists>msg. e = DriverError msg"
  by (auto simp: db_Exec_def split: prod.splits sum.splits)

lemma SaveAll_Errorf:
  assumes "SaveAll r es s = (Inl (Errorf m), s')"
  shows "\<not> implements (PtrT (EType r)) Entity"
  using assms
  by (auto simp: SaveAll_def split: list.splits option.splits if_splits go_type.splits prod.splits sum.splits
      dest: build_rows_Panic field_values_Panic backfill_Panic db_Exec_Inl)

lemma implements_ptr_defined:
  "is_defined_type t \<Longrightarrow> implements t iface \<Longrightarrow> implements (PtrT t) iface"
  by (cases t) (auto simp: is_defined_type_def implements_def list_all_iff)

lemma not_implements_ptr:
  "\<not> is_defined_type t \<Longrightarrow> \<not> implements (PtrT t) Entity"
  by (cases t) (auto simp: is_defined_type_def implements_def Entity_def)

lemma Split_Cons: "\<exists>p ps. Split s = p # ps"
  using Split_not_Nil [of s] by (cases "Split s") auto

lemma key_field_Nil: "key_field [] = None"
  by (simp add: key_field_def)

lemma key_field_Cons:
  "key_field (f # fs) =
     (case key_field fs of Some k \<Rightarrow> Some k
      | None \<Rightarrow> if column_name f = ''id'' then Some f else None)"
  by (auto simp: key_field_def split: list.splits)

lemma scan_step:
  "scan_fields (f # fs) (cols, phs, ai, idf) =
     (if column_name f = ''id'' then
        (if auto_generated f then scan_fields fs (cols, phs, True, Some f)
         else scan_fields fs (cols @ [''id''], phs @ [''?''], False, Some f))
      else scan_fields fs (cols @ [column_name f], phs @ [''?''], ai, idf))"
proof -
  obtain p ps where sp: "Split (Tag_db f) = p # ps"
    using Split_Cons by blast
  then show ?thesis
    by (simp add: column_name_def auto_generated_def Let_def)
qed

lemma scan_fields_eq:
  "scan_fields fs (cols, phs, ai, idf) =
     (cols @ map column_name (persisted fs),
      phs @ replicate (length (persisted fs)) ''?'',
      (case key_field fs of None \<Rightarrow> ai | Some kf \<Rightarrow> auto_generated kf),
      (case key_field fs of None \<Rightarrow> idf | Some kf \<Rightarrow> Some kf))"
proof (induction fs arbitrary: cols phs ai idf)
  case Nil
  then show ?case by (simp add: persisted_def key_field_Nil)
next
  case (Cons f fs)
  show ?case
    unfolding scan_step
    by (simp add: Cons.IH persisted_def generated_key_def key_field_Cons replicate_app_Cons_same
        split: option.splits)
qed

lemma field_values_step:
  "field_values ai ev (f # fs) i =
     (if skipped ai f then field_values ai ev fs (Suc i)
      else (case reflect_Field ev i of
              None \<Rightarrow> Inl Panic
            | Some v \<Rightarrow>
                (if \<not> IsExported f then Inl Panic
                 else (case field_values ai ev fs (Suc i) of
                         Inl err \<Rightarrow> Inl err
                       | Inr vs \<Rightarrow> Inr (v # vs)))))"
proof -
  obtain p ps where sp: "Split (Tag_db f) = p # ps"
    using Split_Cons by blast
  then show ?thesis
    by (simp add: column_name_def skipped_def)
qed

lemma field_values_struct:
  assumes "i + length fs = length vs"
    and "\<forall>f \<in> set fs. \<not> skipped ai f \<longrightarrow> IsExported f"
  shows "field_values ai (Some (StructV vs)) fs i = Inr (row_values ai fs (drop i vs))"
  using assms
proof (induction fs arbitrary: i)
  case Nil
  then show ?case by (simp add: row_values_def)
next
  case (Cons f fs)
  from Cons.prems have i: "i < length vs" by simp
  then have d: "drop i vs = vs ! i # drop (Suc i) vs"
    by (simp add: Cons_nth_drop_Suc)
  have ih: "field_values ai (Some (StructV vs)) fs (Suc i) = Inr (row_values ai fs (drop (Suc i) vs))"
    using Cons.prems by (intro Cons.IH) auto
  show ?case
  proof (cases "skipped ai f")
    case True
    then show ?thesis
      unfolding field_values_step by (simp add: ih d row_values_def)
  next
    case False
    with Cons.prems(2) have "IsExported f" by simp
    with False i show ?thesis
      unfolding field_values_step by (simp add: ih d reflect_Field_def row_values_def)
  qed
qed

lemma build_rows_structs:
  assumes "list_all2 (\<lambda>e vs. deref h e = Some (StructV vs) \<and> length vs = length fs) es rows"
    and "\<forall>f \<in> set fs. \<not> skipped ai f \<longrightarrow> IsExported f"
  shows "build_rows ai h fs phs es (vals, q) =
           Inr (vals @ concat (map (row_values ai fs) rows),
                q @ concat (replicate (length es) (''('' @ Join phs '','' @ ''),'')))"
  using assms
proof (induction arbitrary: vals q rule: list_all2_induct)
  case Nil
  then show ?case by simp
next
  case (Cons e es vs rows)
  have "field_values ai (deref h e) fs 0 = Inr (row_values ai fs vs)"
    using Cons.hyps(1) Cons.prems field_values_struct [of 0 fs vs ai] by simp
  then show ?case
    using Cons.IH [OF Cons.prems] by simp
qed

lemma concat_replicate_comma:
  "concat (replicate (Suc k) (g @ '','')) = Join (replicate (Suc k) g) '','' @ '',''"
  by (induction k) auto

lemma TrimSuffix_comma: "TrimSuffix (x @ '','') '','' = x"
  by (simp add: TrimSuffix_def)

lemma TrimSuffix_groups:
  "0 < n \<Longrightarrow> TrimSuffix (q @ concat (replicate n (g @ '',''))) '','' = q @ Join (replicate n g) '',''"
proof -
  assume "0 < n"
  then obtain k where "n = Suc k" by (cases n) auto
  then show ?thesis
    using TrimSuffix_comma [of "q @ Join (replicate (Suc k) g) '',''"]
    by (simp only: concat_replicate_comma append_assoc)
qed

lemma scan_init:
  "scan_fields fs ([], [], False, None) =
     (map column_name (persisted fs), replicate (length (persisted fs)) ''?'', id_auto fs, key_field fs)"
  by (simp add: scan_fields_eq id_auto_def split: option.splits)

lemma single_key:
  assumes "length (filter (\<lambda>f. column_name f = ''id'') fs) \<le> 1"
    and "f \<in> set fs" and "column_name f = ''id''"
  shows "key_field fs = Some f"
proof -
  have "f \<in> set (filter (\<lambda>f. column_name f = ''id'') fs)"
    using assms by simp
  moreover obtain k where "filter (\<lambda>f. column_name f = ''id'') fs = [k]"
    using assms(1) calculation
    by (cases "filter (\<lambda>f. column_name f = ''id'') fs") (auto simp: Suc_le_eq)
  ultimately show ?thesis
    by (simp add: key_field_def)
qed

lemma skipped_generated_key:
  assumes "length (filter (\<lambda>f. column_name f = ''id'') fs) \<le> 1" and "f \<in> set fs"
  shows "skipped (id_auto fs) f = generated_key f"
proof (cases "column_name f = ''id''")
  case True
  with assms have "key_field fs = Some f" by (rule single_key)
  with True show ?thesis
    by (simp add: skipped_def generated_key_def id_auto_def)
next
  case False
  then show ?thesis by (simp add: skipped_def generated_key_def)
qed

lemma row_values_persisted:
  assumes "length (filter (\<lambda>f. column_name f = ''id'') fs) \<le> 1"
  shows "row_values (id_auto fs) fs vs = persisted_values fs vs"
proof -
  have "filter (\<lambda>(f, v). \<not> skipped (id_auto fs) f) (zip fs vs)
        = filter (\<lambda>(f, v). \<not> generated_key f) (zip fs vs)"
    by (rule filter_cong) (auto dest: set_zip_leftD simp: skipped_generated_key [OF assms])
  then show ?thesis
    by (simp add: row_values_def persisted_values_def)
qed

lemma issued_after_Exec:
  "issued (snd (case db_Exec r q a s of
                  (Inl err, s1) \<Rightarrow> (Inl err, s1)
                | (Inr result, s1) \<Rightarrow>
                    (if ai then
                       (case LastInsertId result of
                          Inl msg \<Rightarrow> (Inl (DriverError msg), s1)
                        | Inr lid \<Rightarrow> (case bf lid s1 of (res, h) \<Rightarrow> (res, s1\<lparr>heap := h\<rparr>)))
                     else (Inr (), s1))))
   = issued s @ [ExecCall q a]"
  using db_Exec_issued [of r q a s]
  by (auto split: prod.splits sum.splits)

lemma SaveAll_run:
  assumes "EType r = StructT fs vm pm"
    and "implements (PtrT (EType r)) Entity"
    and "deref (heap s) first = Some v"
    and "GetTableName r v = Some t"
    and "build_rows (id_auto fs) (heap s) fs (replicate (length (persisted fs)) ''?'') (first # others)
           ([], ''INSERT INTO '' @ t @ '' ('' @ Join (map column_name (persisted fs)) '','' @ '') VALUES '')
         = Inr (vals, q)"
  shows "SaveAll r (first # others) s =
           (case db_Exec r (TrimSuffix q '','') vals s of
              (Inl err, s1) \<Rightarrow> (Inl err, s1)
            | (Inr result, s1) \<Rightarrow>
                (if id_auto fs then
                   (case LastInsertId result of
                      Inl msg \<Rightarrow> (Inl (DriverError msg), s1)
                    | Inr lid \<Rightarrow>
                        (case backfill fs (id_name fs) lid (first # others) 0 (heap s1) of
                           (res, h) \<Rightarrow> (res, s1\<lparr>heap := h\<rparr>)))
                 else (Inr (), s1)))"
  using assms
  unfolding id_name_def
  by (simp add: SaveAll_def scan_init del: build_rows.simps)

lemma SaveAll_outcome:
  assumes "SaveAll r (first # others) s = (res, s')" and "EType r = StructT fs vm pm"
  shows "(s' = s \<and> (res = Inl Panic \<or> res = Inl ValidationError))
       \<or> (\<exists>q vals out s1. db_Exec r q vals s = (out, s1) \<and>
            (case out of
               Inl err \<Rightarrow> res = Inl err \<and> s' = s1
             | Inr result \<Rightarrow>
                 if id_auto fs then
                   (case LastInsertId result of
                      Inl msg \<Rightarrow> res = Inl (DriverError msg) \<and> s' = s1
                    | Inr lid \<Rightarrow>
                        (\<exists>h. backfill fs (id_name fs) lid (first # others) 0 (heap s1) = (res, h)
                             \<and> s' = s1\<lparr>heap := h\<rparr>))
                 else res = Inr () \<and> s' = s1))"
proof (cases "deref (heap s) first")
  case None
  with assms show ?thesis by (simp add: SaveAll_def)
next
  case (Some v)
  show ?thesis
  proof (cases "implements (PtrT (EType r)) Entity")
    case False
    with Some assms show ?thesis by (auto simp: SaveAll_def ValidationError_def)
  next
    case True
    show ?thesis
    proof (cases "GetTableName r v")
      case None
      with True Some assms show ?thesis by (auto simp: SaveAll_def scan_init)
    next
      case tn: (Some t)
      show ?thesis
      proof (cases "build_rows (id_auto fs) (heap s) fs (replicate (length (persisted fs)) ''?'') (first # others)
           ([], ''INSERT INTO '' @ t @ '' ('' @ Join (map column_name (persisted fs)) '','' @ '') VALUES '')")
        case (Inl e)
        then have "e = Panic" by (rule build_rows_Panic)
        with Inl tn True Some assms show ?thesis
          by (auto simp: SaveAll_def scan_init simp del: build_rows.simps)
      next
        case (Inr b)
        obtain vals q where b: "b = (vals, q)" by (cases b)
        obtain out s1 where ex: "db_Exec r (TrimSuffix q '','') vals s = (out, s1)"
          by (cases "db_Exec r (TrimSuffix q '','') vals s")
        have "SaveAll r (first # others) s =
           (case db_Exec r (TrimSuffix q '','') vals s of
              (Inl err, s1) \<Rightarrow> (Inl err, s1)
            | (Inr result, s1) \<Rightarrow>
                (if id_auto fs then
                   (case LastInsertId result of
                      Inl msg \<Rightarrow> (Inl (DriverError msg), s1)
                    | Inr lid \<Rightarrow>
                        (case backfill fs (id_name fs) lid (first # others) 0 (heap s1) of
                           (res, h) \<Rightarrow> (res, s1\<lparr>heap := h\<rparr>)))
                 else (Inr (), s1)))"
          using Inr unfolding b by (rule SaveAll_run [OF assms(2) True Some tn])
        with assms(1) ex have "(case out of
               Inl err \<Rightarrow> res = Inl err \<and> s' = s1
             | Inr result \<Rightarrow>
                 if id_auto fs then
                   (case LastInsertId result of
                      Inl msg \<Rightarrow> res = Inl (DriverError msg) \<and> s' = s1
                    | Inr lid \<Rightarrow>
                        (\<exists>h. backfill fs (id_name fs) lid (first # others) 0 (heap s1) = (res, h)
                             \<and> s' = s1\<lparr>heap := h\<rparr>))
                 else res = Inr () \<and> s' = s1)"
          by (auto split: sum.splits prod.splits)
        with ex show ?thesis by blast
      qed
    qed
  qed
qed

lemma index_of_name_Some:
  "index_of_name fs n = Some j \<Longrightarrow> j < length fs \<and> Name (fs ! j) = n"
  by (induction fs arbitrary: j) (auto split: if_splits)

lemma FieldByName_Some:
  "FieldByName fs n = Some j \<Longrightarrow> j < length fs \<and> Name (fs ! j) = n"
  by (auto simp: FieldByName_def dest: index_of_name_Some split: if_splits)

lemma key_field_Some:
  "key_field fs = Some kf \<Longrightarrow> kf \<in> set fs \<and> column_name kf = ''id''"
proof -
  assume a: "key_field fs = Some kf"
  then have ne: "filter (\<lambda>f. column_name f = ''id'') fs \<noteq> []"
    and kf: "kf = last (filter (\<lambda>f. column_name f = ''id'') fs)"
    by (auto simp: key_field_def split: list.splits)
  from last_in_set [OF ne] kf have "kf \<in> set (filter (\<lambda>f. column_name f = ''id'') fs)"
    by simp
  then show ?thesis by simp
qed

lemma exported_not_blank: "IsExported f \<Longrightarrow> Name f \<noteq> ''_''"
  by (auto simp: IsExported_def split: list.splits)

lemma distinct_filter_nth:
  assumes "distinct (filter P xs)" and "j < length xs" and "k < length xs"
    and "xs ! j = xs ! k" and "P (xs ! j)"
  shows "j = k"
  using assms
proof (induction xs arbitrary: j k)
  case Nil
  then show ?case by simp
next
  case (Cons x xs)
  show ?case
  proof (cases j; cases k)
    fix j' k' assume jk: "j = Suc j'" "k = Suc k'"
    then have "j' = k'"
      using Cons.prems by (intro Cons.IH) (auto split: if_splits)
    with jk show ?thesis by simp
  next
    fix k' assume jk: "j = 0" "k = Suc k'"
    with Cons.prems have "P x" "x \<in> set xs" "x \<notin> set (filter P xs)"
      by (auto split: if_splits)
    then show ?thesis by simp
  next
    fix j' assume jk: "j = Suc j'" "k = 0"
    with Cons.prems have "P x" "x \<in> set xs" "x \<notin> set (filter P xs)"
      by (auto split: if_splits)
    then show ?thesis by simp
  qed simp
qed

lemma wf_fields_same_name:
  assumes "wf_fields fs" and "j < length fs" and "kf \<in> set fs"
    and "Name (fs ! j) = Name kf" and "IsExported (fs ! j)"
  shows "fs ! j = kf"
proof -
  from assms(3) obtain k where k: "k < length fs" "fs ! k = kf"
    by (auto simp: in_set_conv_nth)
  have "j = k"
    using assms k exported_not_blank [OF assms(5)]
    by (intro distinct_filter_nth [of "\<lambda>n. n \<noteq> ''_''" "map Name fs"])
       (simp_all add: wf_fields_def)
  with k show ?thesis by simp
qed

lemma set_key_Some:
  assumes "set_key fs n h e x = Some h'"
  shows "\<exists>a vs j b. e = Some a \<and> h a = Some (StructV vs) \<and> FieldByName fs n = Some j
           \<and> j < length vs \<and> IsExported (fs ! j) \<and> int_bits (Kind (fs ! j)) = Some b
           \<and> h' = h(a \<mapsto> StructV (vs[j := IntV (signed_take_bit (b - 1) (sint x))]))"
  using assms
  by (auto simp: set_key_def SetInt_def split: option.splits go_value.splits if_splits)

lemma backfill_frame:
  assumes "backfill fs n lid es i h = (res, h')"
  shows "h' a = h a
       \<or> (Some a \<in> set es \<and>
          (\<exists>vs v j b. FieldByName fs n = Some j \<and> IsExported (fs ! j)
              \<and> int_bits (Kind (fs ! j)) = Some b \<and> j < length vs
              \<and> h a = Some (StructV vs) \<and> h' a = Some (StructV (vs[j := v]))))"
  using assms
proof (induction es arbitrary: i h)
  case Nil
  then show ?case by simp
next
  case (Cons e es)
  show ?case
  proof (cases "set_key fs n h e (lid + of_nat i)")
    case None
    with Cons.prems show ?thesis by simp
  next
    case (Some h1)
    from set_key_Some [OF Some] obtain a0 vs0 j b where
      s: "e = Some a0" "h a0 = Some (StructV vs0)" "FieldByName fs n = Some j" "j < length vs0"
         "IsExported (fs ! j)" "int_bits (Kind (fs ! j)) = Some b"
         "h1 = h(a0 \<mapsto> StructV (vs0[j := IntV (signed_take_bit (b - 1) (sint (lid + of_nat i)))]))"
      by blast
    from Some Cons.prems have "backfill fs n lid es (Suc i) h1 = (res, h')" by simp
    from Cons.IH [OF this] consider
      (same) "h' a = h1 a"
      | (upd) vs v where "Some a \<in> set es" "j < length vs" "h1 a = Some (StructV vs)"
           "h' a = Some (StructV (vs[j := v]))"
      using s(3) by auto
    then show ?thesis
    proof cases
      case same
      with s show ?thesis by (cases "a = a0") auto
    next
      case upd
      show ?thesis
      proof (cases "a = a0")
        case True
        with upd s have "vs = vs0[j := IntV (signed_take_bit (b - 1) (sint (lid + of_nat i)))]"
          by simp
        then have "vs[j := v] = vs0[j := v]" by simp
        with upd have "h' a = Some (StructV (vs0[j := v]))" by simp
        with True s show ?thesis by auto
      next
        case False
        with upd s show ?thesis by auto
      qed
    qed
  qed
qed

lemma backfill_assigns:
  assumes "backfill fs n lid es i h = (Inr (), h')" and "distinct es" and "k < length es"
  shows "\<exists>a vs j b. es ! k = Some a \<and> h' a = Some (StructV vs) \<and> FieldByName fs n = Some j
           \<and> j < length vs \<and> IsExported (fs ! j) \<and> int_bits (Kind (fs ! j)) = Some b
           \<and> vs ! j = IntV (signed_take_bit (b - 1) (sint (lid + of_nat (i + k))))"
  using assms
proof (induction es arbitrary: i h k)
  case Nil
  then show ?case by simp
next
  case (Cons e es)
  show ?case
  proof (cases "set_key fs n h e (lid + of_nat i)")
    case None
    with Cons.prems show ?thesis by simp
  next
    case (Some h1)
    from set_key_Some [OF Some] obtain a0 vs0 j b where
      s: "e = Some a0" "h a0 = Some (StructV vs0)" "FieldByName fs n = Some j" "j < length vs0"
         "IsExported (fs ! j)" "int_bits (Kind (fs ! j)) = Some b"
         "h1 = h(a0 \<mapsto> StructV (vs0[j := IntV (signed_take_bit (b - 1) (sint (lid + of_nat i)))]))"
      by blast
    from Some Cons.prems have rest: "backfill fs n lid es (Suc i) h1 = (Inr (), h')" by simp
    show ?thesis
    proof (cases k)
      case 0
      from Cons.prems(2) s(1) have "Some a0 \<notin> set es" by simp
      with backfill_frame [OF rest, of a0] have "h' a0 = h1 a0" by auto
      with s 0 show ?thesis by simp
    next
      case (Suc k')
      with Cons.prems have "distinct es" "k' < length es" by simp_all
      from Cons.IH [OF rest this] Suc show ?thesis by simp
    qed
  qed
qed

lemma sint_add_of_nat:
  fixes lid :: "64 word"
  shows "sint (lid + of_nat i) = signed_take_bit 63 (sint lid + int i)"
proof -
  have "sint (lid + of_nat i) = signed_take_bit 63 (sint lid + sint (of_nat i :: 64 word))"
    by (simp add: sint_word_ariths)
  also have "sint (of_nat i :: 64 word) = signed_take_bit 63 (int i)"
    by (simp add: signed_of_nat)
  also have "signed_take_bit 63 (sint lid + signed_take_bit 63 (int i))
             = signed_take_bit 63 (signed_take_bit 63 (sint lid) + signed_take_bit 63 (int i))"
  proof -
    have "signed_take_bit 63 (sint lid) = sint lid"
      using sint_ge [of lid] sint_lt [of lid] by (intro signed_take_bit_int_eq_self) simp_all
    then show ?thesis by simp
  qed
  also have "\<dots> = signed_take_bit 63 (sint lid + int i)"
    by (rule signed_take_bit_add)
  finally show ?thesis .
qed

lemma signed_take_bit_in_range:
  fixes lid :: "64 word"
  assumes "b \<in> {8, 16, 32, 64}"
    and "- (2 ^ (b - 1)) \<le> sint lid" and "sint lid + int n \<le> 2 ^ (b - 1)" and "i < n"
  shows "signed_take_bit (b - 1) (sint (lid + of_nat i)) = sint lid + int i"
proof -
  have le: "(2::int) ^ (b - 1) \<le> 2 ^ 63"
    using assms(1) by (intro power_increasing) auto
  have lo: "- (2 ^ (b - 1)) \<le> sint lid + int i"
    using assms(2) by simp
  have hi: "sint lid + int i < 2 ^ (b - 1)"
    using assms(3,4) by simp
  have "signed_take_bit 63 (sint lid + int i) = sint lid + int i"
    using lo hi le by (intro signed_take_bit_int_eq_self) linarith+
  then have "sint (lid + of_nat i) = sint lid + int i"
    by (simp only: sint_add_of_nat)
  then show ?thesis
    using lo hi by (simp only: signed_take_bit_int_eq_self)
qed

lemma int_bits_cases: "int_bits k = Some b \<Longrightarrow> b \<in> {8, 16, 32, 64}"
  by (cases k) auto

lemma db_Exec_facts:
  assumes "db_Exec r q a s = (out, s1)"
  shows "heap s1 = heap s" and "issued s1 = issued s @ [ExecCall q a]"
    and "out = (case fst (Exec (DB r) (store s) q a) of Inl msg \<Rightarrow> Inl (DriverError msg) | Inr x \<Rightarrow> Inr x)"
  using assms by (auto simp: db_Exec_def split: prod.splits)

lemma id_auto_key:
  "id_auto fs \<Longrightarrow> \<exists>kf. key_field fs = Some kf \<and> auto_generated kf \<and> id_name fs = Name kf"
  by (auto simp: id_auto_def id_name_def split: option.splits)

lemma key_id_auto:
  "key_field fs = Some kf \<Longrightarrow> auto_generated kf \<Longrightarrow> id_auto fs \<and> id_name fs = Name kf"
  by (simp add: id_auto_def id_name_def)

lemma key_index:
  assumes "wf_fields fs" and "key_field fs = Some kf"
    and "FieldByName fs (Name kf) = Some j" and "IsExported (fs ! j)"
  shows "j < length fs \<and> fs ! j = kf \<and> column_name (fs ! j) = ''id''"
proof -
  from FieldByName_Some [OF assms(3)] have j: "j < length fs" "Name (fs ! j) = Name kf"
    by simp_all
  from key_field_Some [OF assms(2)] have kf: "kf \<in> set fs" "column_name kf = ''id''"
    by simp_all
  from wf_fields_same_name [OF assms(1) j(1) kf(1) j(2) assms(4)] j kf show ?thesis
    by simp
qed

lemma SaveAll_outcome_auto:
  assumes "SaveAll r (first # others) s = (res, s')" and "EType r = StructT fs vm pm"
    and "key_field fs = Some kf" and "auto_generated kf"
  shows "(s' = s \<and> (res = Inl Panic \<or> res = Inl ValidationError))
       \<or> (\<exists>q vals out s1. db_Exec r q vals s = (out, s1) \<and>
            ((\<exists>err. out = Inl err \<and> res = Inl err \<and> s' = s1)
           \<or> (\<exists>result msg. out = Inr result \<and> LastInsertId result = Inl msg
                  \<and> res = Inl (DriverError msg) \<and> s' = s1)
           \<or> (\<exists>result lid h. out = Inr result \<and> LastInsertId result = Inr lid
                  \<and> backfill fs (Name kf) lid (first # others) 0 (heap s1) = (res, h)
                  \<and> s' = s1\<lparr>heap := h\<rparr>)))"
proof -
  note ka = key_id_auto [OF assms(3,4)]
  from SaveAll_outcome [OF assms(1,2)] show ?thesis
  proof (elim disjE exE conjE)
    fix q vals out s1
    assume ex: "db_Exec r q vals s = (out, s1)"
      and c: "case out of
               Inl err \<Rightarrow> res = Inl err \<and> s' = s1
             | Inr result \<Rightarrow>
                 if id_auto fs then
                   (case LastInsertId result of
                      Inl msg \<Rightarrow> res = Inl (DriverError msg) \<and> s' = s1
                    | Inr lid \<Rightarrow>
                        (\<exists>h. backfill fs (id_name fs) lid (first # others) 0 (heap s1) = (res, h)
                             \<and> s' = s1\<lparr>heap := h\<rparr>))
                 else res = Inr () \<and> s' = s1"
    have "(\<exists>err. out = Inl err \<and> res = Inl err \<and> s' = s1)
           \<or> (\<exists>result msg. out = Inr result \<and> LastInsertId result = Inl msg
                  \<and> res = Inl (DriverError msg) \<and> s' = s1)
           \<or> (\<exists>result lid h. out = Inr result \<and> LastInsertId result = Inr lid
                  \<and> backfill fs (Name kf) lid (first # others) 0 (heap s1) = (res, h)
                  \<and> s' = s1\<lparr>heap := h\<rparr>)"
    proof (cases out)
      case (Inl err)
      with c show ?thesis by simp
    next
      case (Inr result)
      with c ka show ?thesis
        by (cases "LastInsertId result") auto
    qed
    with ex show ?thesis by blast
  qed simp_all
qed

lemma sample_struct: "EType sample_repo = StructT [SampleEntity_Id, SampleEntity_Name] [''GetID'', ''GetTableName'', ''ToMap''] []"
  by (simp add: sample_repo_def SampleEntity_def)

lemma sample_wf: "wf_fields [SampleEntity_Id, SampleEntity_Name]"
  by code_simp

lemma sample_key: "key_field [SampleEntity_Id, SampleEntity_Name] = Some SampleEntity_Id"
  by code_simp

lemma sample_auto: "auto_generated SampleEntity_Id"
  by code_simp

lemma sample_saved:
  "SaveAll sample_repo two_pointers fresh = (Inr (), snd (SaveAll sample_repo two_pointers fresh))"
proof -
  have "fst (SaveAll sample_repo two_pointers fresh) = Inr ()"
    by code_simp
  then show ?thesis by (simp add: prod_eq_iff)
qed

lemma unsigned_struct: "EType unsigned_repo = StructT [UnsignedEntity_Id, SampleEntity_Name] [''GetID'', ''GetTableName'', ''ToMap''] []"
  by (simp add: unsigned_repo_def sample_repo_def UnsignedEntity_def)

lemma unsigned_wf: "wf_fields [UnsignedEntity_Id, SampleEntity_Name]"
  by code_simp

lemma unsigned_key: "key_field [UnsignedEntity_Id, SampleEntity_Name] = Some UnsignedEntity_Id"
  by code_simp

lemma unsigned_auto: "auto_generated UnsignedEntity_Id"
  by code_simp

lemma SaveAll_frame_at:
  assumes "SaveAll r entities s = (res, s')" and "EType r = StructT fs vm pm" and "wf_fields fs"
  shows "heap s' a = heap s a
       \<or> (Some a \<in> set entities \<and>
          (\<exists>kf j vs v. key_field fs = Some kf \<and> auto_generated kf
              \<and> j < length fs \<and> fs ! j = kf \<and> column_name (fs ! j) = ''id'' \<and> j < length vs
              \<and> heap s a = Some (StructV vs) \<and> heap s' a = Some (StructV (vs[j := v]))))"
proof (cases entities)
  case Nil
  with assms(1) show ?thesis by (simp add: SaveAll_def)
next
  case (Cons first others)
  from SaveAll_outcome [OF assms(1) [unfolded Cons] assms(2)] consider
    (early) "s' = s"
    | (exec) q vals out s1 where "db_Exec r q vals s = (out, s1)"
        "(case out of
               Inl err \<Rightarrow> res = Inl err \<and> s' = s1
             | Inr result \<Rightarrow>
                 if id_auto fs then
                   (case LastInsertId result of
                      Inl msg \<Rightarrow> res = Inl (DriverError msg) \<and> s' = s1
                    | Inr lid \<Rightarrow>
                        (\<exists>h. backfill fs (id_name fs) lid (first # others) 0 (heap s1) = (res, h)
                             \<and> s' = s1\<lparr>heap := h\<rparr>))
                 else res = Inr () \<and> s' = s1)"
    by blast
  then show ?thesis
  proof cases
    case early
    then show ?thesis by simp
  next
    case exec
    note h1 = db_Exec_facts(1) [OF exec(1)]
    show ?thesis
    proof (cases "\<exists>result lid. out = Inr result \<and> id_auto fs \<and> LastInsertId result = Inr lid")
      case False
      with exec(2) have "s' = s1"
        by (auto split: sum.splits if_splits)
      with h1 show ?thesis by simp
    next
      case True
      then obtain result lid where t: "out = Inr result" "id_auto fs" "LastInsertId result = Inr lid"
        by blast
      with exec(2) obtain h where bf: "backfill fs (id_name fs) lid (first # others) 0 (heap s1) = (res, h)"
        and s': "s' = s1\<lparr>heap := h\<rparr>"
        by auto
      from id_auto_key [OF t(2)] obtain kf where
        kf: "key_field fs = Some kf" "auto_generated kf" "id_name fs = Name kf"
        by blast
      from backfill_frame [OF bf, of a] show ?thesis
      proof
        assume "h a = heap s1 a"
        with s' h1 show ?thesis by simp
      next
        assume "Some a \<in> set (first # others) \<and>
          (\<exists>vs v j b. FieldByName fs (id_name fs) = Some j \<and> IsExported (fs ! j)
              \<and> int_bits (Kind (fs ! j)) = Some b \<and> j < length vs
              \<and> heap s1 a = Some (StructV vs) \<and> h a = Some (StructV (vs[j := v])))"
        then obtain vs v j where u: "Some a \<in> set (first # others)"
          "FieldByName fs (Name kf) = Some j" "IsExported (fs ! j)" "j < length vs"
          "heap s1 a = Some (StructV vs)" "h a = Some (StructV (vs[j := v]))"
          using kf(3) by auto
        from key_index [OF assms(3) kf(1) u(2,3)] u kf s' h1 Cons show ?thesis
          by auto
      qed
    qed
  qed
qed

subsection \<open>Saving nothing\<close>

text \<open>
  C5: \<^verbatim>\<open>SaveAll\<close> of the empty list succeeds and leaves the whole state as it was: the
  heap, the store behind the connection and the log of statements, so that no statement
  reached the backend.
\<close>

theorem SaveAll_empty: "SaveAll r [] s = (Inr (), s)"
  by (simp add: SaveAll_def)

subsection \<open>The \<^verbatim>\<open>IN (...)\<close> clause\<close>

text \<open>
  C3: for every list \<open>ids\<close>, \<^verbatim>\<open>FindAllByID\<close> and \<^verbatim>\<open>DeleteByIDs\<close> hand the connection
  one statement whose \<^verbatim>\<open>IN (...)\<close> clause joins \<open>length ids\<close> placeholders, that is
  exactly \<open>length ids\<close> question marks, and whose arguments are \<open>ids\<close> in order. For the
  empty list the clause is \<^verbatim>\<open>IN ()\<close> and the statement is handed over all the same.
  (\<open>t\<close> is the table name the zero entity gives.)
\<close>

theorem in_clause:
  assumes "emptyEntity_table r = Some t"
  shows "issued (snd (FindAllByID r ids s)) =
           issued s @ [SelectCall (''SELECT * FROM '' @ t @ '' WHERE id IN (''
                          @ Join (replicate (length ids) ''?'') '','' @ '')'') ids]
       \<and> issued (snd (DeleteByIDs r ids s)) =
           issued s @ [ExecCall (''DELETE FROM '' @ t @ '' WHERE id IN (''
                          @ Join (replicate (length ids) ''?'') '','' @ '')'') ids]
       \<and> count_list (Join (replicate (length ids) ''?'') '','') (CHR ''?'') = length ids
       \<and> issued (snd (FindAllByID r [] s)) =
           issued s @ [SelectCall (''SELECT * FROM '' @ t @ '' WHERE id IN ()'') []]
       \<and> issued (snd (DeleteByIDs r [] s)) =
           issued s @ [ExecCall (''DELETE FROM '' @ t @ '' WHERE id IN ()'') []]"
proof -
  have find: "issued (snd (FindAllByID r xs s)) =
           issued s @ [SelectCall (''SELECT * FROM '' @ t @ '' WHERE id IN (''
                          @ Join (replicate (length xs) ''?'') '','' @ '')'') xs]" for xs
    by (simp only: FindAllByID_eq [OF assms] db_Select_issued)
  have del: "issued (snd (DeleteByIDs r xs s)) =
           issued s @ [ExecCall (''DELETE FROM '' @ t @ '' WHERE id IN (''
                          @ Join (replicate (length xs) ''?'') '','' @ '')'') xs]" for xs
    by (simp only: DeleteByIDs_snd [OF assms] db_Exec_issued)
  from find [of ids] del [of ids] find [of "[]"] del [of "[]"] show ?thesis
    by (simp add: count_Join_placeholders)
qed

theorem in_clause_witness:
  "emptyEntity_table sample_repo = Some ''sample_entities''
 \<and> issued (snd (FindAllByID sample_repo [IntV 1, IntV 3] two_rows)) =
     [SelectCall ''SELECT * FROM sample_entities WHERE id IN (?,?)'' [IntV 1, IntV 3]]
 \<and> issued (snd (DeleteByIDs sample_repo [IntV 1, IntV 3] two_rows)) =
     [ExecCall ''DELETE FROM sample_entities WHERE id IN (?,?)'' [IntV 1, IntV 3]]
 \<and> issued (snd (FindAllByID sample_repo [] two_rows)) =
     [SelectCall ''SELECT * FROM sample_entities WHERE id IN ()'' []]
 \<and> issued (snd (DeleteByIDs sample_repo [] two_rows)) =
     [ExecCall ''DELETE FROM sample_entities WHERE id IN ()'' []]"
  using in_clause [OF sample_table_name, of "[IntV 1, IntV 3]" two_rows] sample_table_name
  by (simp add: two_rows_def)

subsection \<open>\<^verbatim>\<open>FindByID\<close> and \<^verbatim>\<open>ExistsByID\<close>\<close>

text \<open>
  C4: when \<^verbatim>\<open>FindAllByID([id])\<close> succeeds with \<open>entities\<close>, \<^verbatim>\<open>FindByID(id)\<close> and
  \<^verbatim>\<open>ExistsByID(id)\<close> fail with \<open>NotFound\<close> exactly when \<open>entities\<close> is empty; otherwise
  \<^verbatim>\<open>FindByID\<close> returns its first element and \<^verbatim>\<open>ExistsByID\<close> succeeds, with no value
  but the success.
\<close>

theorem FindByID_ExistsByID:
  assumes "FindAllByID r [idv] s = (Inr entities, s')"
  shows "(FindByID r idv s = (Inl NotFound, s') \<longleftrightarrow> entities = [])
       \<and> (entities \<noteq> [] \<longrightarrow> FindByID r idv s = (Inr (hd entities), s'))
       \<and> (ExistsByID r idv s = (Inl NotFound, s') \<longleftrightarrow> entities = [])
       \<and> (entities \<noteq> [] \<longrightarrow> ExistsByID r idv s = (Inr (), s'))"
  using assms
  by (cases entities) (simp_all add: FindByID_def ExistsByID_def NotFound_def)

theorem FindByID_ExistsByID_witness:
  "FindByID sample_repo (IntV 1) two_rows =
     (Inr (StructV [IntV 1, StrV ''test'']),
      two_rows\<lparr>issued := [SelectCall ''SELECT * FROM sample_entities WHERE id IN (?)'' [IntV 1]]\<rparr>)
 \<and> ExistsByID sample_repo (IntV 1) two_rows =
     (Inr (),
      two_rows\<lparr>issued := [SelectCall ''SELECT * FROM sample_entities WHERE id IN (?)'' [IntV 1]]\<rparr>)
 \<and> FindByID sample_repo (IntV 7) two_rows =
     (Inl NotFound,
      two_rows\<lparr>issued := [SelectCall ''SELECT * FROM sample_entities WHERE id IN (?)'' [IntV 7]]\<rparr>)
 \<and> ExistsByID sample_repo (IntV 7) two_rows =
     (Inl NotFound,
      two_rows\<lparr>issued := [SelectCall ''SELECT * FROM sample_entities WHERE id IN (?)'' [IntV 7]]\<rparr>)"
  using FindByID_ExistsByID [OF find_present] FindByID_ExistsByID [OF find_absent]
  by simp

subsection \<open>\<^verbatim>\<open>FindAllPaginated\<close>\<close>

text \<open>
  C6: \<^verbatim>\<open>FindAllPaginated\<close> runs \<^verbatim>\<open>SELECT * FROM t LIMIT ? OFFSET ?\<close> with the limit and
  the offset as arguments, then \<^verbatim>\<open>SELECT COUNT(*) FROM t\<close> without arguments; when both
  succeed the result carries the request it was given, the count the second statement
  returned and the entities the first returned. On the table of two rows, limit 1 and
  offset 0 give the first row and a total of 2, limit 1 and offset 1 the second row and
  a total of 2.
\<close>

theorem FindAllPaginated_composes:
  assumes "emptyEntity_table r = Some t"
    and "Select (DB r) (store s) (''SELECT * FROM '' @ t @ '' LIMIT ? OFFSET ?'')
           [IntV (Limit p), IntV (Offset p)] = (Inr page, b1)"
    and "Get (DB r) b1 (''SELECT COUNT(*) FROM '' @ t) [] = (Inr n, b2)"
  shows "FindAllPaginated r p s =
           (Inr \<lparr>Pagination = p, TotalCount = n, Results = page\<rparr>,
            s\<lparr>store := b2,
              issued := issued s @
                [SelectCall (''SELECT * FROM '' @ t @ '' LIMIT ? OFFSET ?'')
                   [IntV (Limit p), IntV (Offset p)],
                 GetCall (''SELECT COUNT(*) FROM '' @ t) []]\<rparr>)"
  using assms
  by (simp add: FindAllPaginated_def db_Select_def db_Get_def)

theorem FindAllPaginated_composes_witness:
  "FindAllPaginated sample_repo \<lparr>Limit = 1, Offset = 0\<rparr> two_rows =
     (Inr \<lparr>Pagination = \<lparr>Limit = 1, Offset = 0\<rparr>, TotalCount = 2,
           Results = [StructV [IntV 1, StrV ''test'']]\<rparr>,
      two_rows\<lparr>issued :=
        [SelectCall ''SELECT * FROM sample_entities LIMIT ? OFFSET ?'' [IntV 1, IntV 0],
         GetCall ''SELECT COUNT(*) FROM sample_entities'' []]\<rparr>)
   \<and> FindAllPaginated sample_repo \<lparr>Limit = 1, Offset = 1\<rparr> two_rows =
     (Inr \<lparr>Pagination = \<lparr>Limit = 1, Offset = 1\<rparr>, TotalCount = 2,
           Results = [StructV [IntV 2, StrV ''test2'']]\<rparr>,
      two_rows\<lparr>issued :=
        [SelectCall ''SELECT * FROM sample_entities LIMIT ? OFFSET ?'' [IntV 1, IntV 1],
         GetCall ''SELECT COUNT(*) FROM sample_entities'' []]\<rparr>)"
proof -
  have sel0: "Select (DB sample_repo) (store two_rows)
                (''SELECT * FROM '' @ ''sample_entities'' @ '' LIMIT ? OFFSET ?'')
                [IntV (Limit \<lparr>Limit = 1, Offset = 0\<rparr>), IntV (Offset \<lparr>Limit = 1, Offset = 0\<rparr>)]
              = (Inr [StructV [IntV 1, StrV ''test'']], store two_rows)"
    by (simp add: sample_repo_def mem_Select_def two_rows_def)
  have sel1: "Select (DB sample_repo) (store two_rows)
                (''SELECT * FROM '' @ ''sample_entities'' @ '' LIMIT ? OFFSET ?'')
                [IntV (Limit \<lparr>Limit = 1, Offset = 1\<rparr>), IntV (Offset \<lparr>Limit = 1, Offset = 1\<rparr>)]
              = (Inr [StructV [IntV 2, StrV ''test2'']], store two_rows)"
    by (simp add: sample_repo_def mem_Select_def two_rows_def)
  have cnt: "Get (DB sample_repo) (store two_rows) (''SELECT COUNT(*) FROM '' @ ''sample_entities'') []
              = (Inr 2, store two_rows)"
    by (simp add: sample_repo_def mem_Get_def two_rows_def)
  show ?thesis
    using FindAllPaginated_composes [OF sample_table_name sel0 cnt]
          FindAllPaginated_composes [OF sample_table_name sel1 cnt]
    by (simp add: two_rows_def)
qed

subsection \<open>One and many\<close>

text \<open>
  C7: \<^verbatim>\<open>Save(e)\<close> is \<^verbatim>\<open>SaveAll([e])\<close>, \<^verbatim>\<open>DeleteByID(id)\<close> is \<^verbatim>\<open>DeleteByIDs([id])\<close>,
  \<^verbatim>\<open>DeleteEntity(e)\<close> is \<^verbatim>\<open>DeleteEntities([e])\<close>; and \<^verbatim>\<open>DeleteEntities(entities)\<close> is
  \<^verbatim>\<open>DeleteByIDs(ids)\<close> for \<open>ids\<close> the keys \<^verbatim>\<open>GetID\<close> gives for the entities, in order
  (each pointer leads to an entity, and the pointers pass the interface assertion of
  the loop).
\<close>

theorem singleton_is_bulk:
  "Save r e s = SaveAll r [e] s
 \<and> DeleteByID r idv s = DeleteByIDs r [idv] s
 \<and> DeleteEntity r e s = DeleteEntities r [e] s
 \<and> ((entities \<noteq> [] \<longrightarrow> implements (PtrT (EType r)) Entity)
      \<and> list_all2 (\<lambda>e k. \<exists>v. deref (heap s) e = Some v \<and> GetID r v = Some k) entities ids
    \<longrightarrow> DeleteEntities r entities s = DeleteByIDs r ids s)"
proof -
  have "DeleteEntities r entities s = DeleteByIDs r ids s"
    if "entities \<noteq> [] \<longrightarrow> implements (PtrT (EType r)) Entity"
      and "list_all2 (\<lambda>e k. \<exists>v. deref (heap s) e = Some v \<and> GetID r v = Some k) entities ids"
    using entity_ids_keys [OF that(2) that(1)] by (simp add: DeleteEntities_def)
  then show ?thesis
    by (simp add: Save_def DeleteByID_def DeleteEntity_def)
qed

theorem singleton_is_bulk_witness:
  "DeleteEntities sample_repo [Some 0, Some 1] fresh = DeleteByIDs sample_repo [IntV 0, IntV 0] fresh
 \<and> DeleteEntity sample_repo (Some 0) fresh = DeleteEntities sample_repo [Some 0] fresh
 \<and> Save sample_repo (Some 0) fresh = SaveAll sample_repo [Some 0] fresh
 \<and> DeleteByID sample_repo (IntV 1) fresh = DeleteByIDs sample_repo [IntV 1] fresh"
proof -
  have keys: "list_all2 (\<lambda>e k. \<exists>v. deref (heap fresh) e = Some v \<and> GetID sample_repo v = Some k)
                [Some 0, Some 1] [IntV 0, IntV 0]"
    by (simp add: deref_def fresh_def two_entities_def sample_repo_def SampleEntity_GetID_def)
  show ?thesis
    using singleton_is_bulk [of sample_repo "Some 0" fresh "IntV 1" "[Some 0, Some 1]" "[IntV 0, IntV 0]"]
      keys implements_ptr_SampleEntity
    by simp
qed

subsection \<open>The statement \<^verbatim>\<open>SaveAll\<close> makes\<close>

text \<open>
  C2: for a non-empty list of entities of a struct type that meets the bound
  \<^verbatim>\<open>E Entity[ID]\<close>, \<^verbatim>\<open>SaveAll\<close> hands the connection exactly one statement,
  \<^verbatim>\<open>INSERT INTO t (columns) VALUES (?,..,?),..,(?,..,?)\<close>: the columns are the storage
  names of the persisted fields in field order, that is of every field but a key field
  (storage name \<^verbatim>\<open>id\<close>) marked auto-generated; there is one group of placeholders for
  each entity, with one placeholder for each column; and the arguments are the values
  of the persisted fields, entity after entity, in field order. (\<open>rows\<close> are the field
  values of the entities, \<open>t\<close> is the table name the first entity gives; the persisted
  fields are exported, as reading them through \<^verbatim>\<open>reflect\<close> requires, and at most one
  field has the storage name \<^verbatim>\<open>id\<close>, as the data model says.)
\<close>

theorem insert_statement:
  assumes "EType r = StructT fs vm pm"
    and "implements (EType r) Entity"
    and "entities \<noteq> []"
    and "list_all2 (\<lambda>e vs. deref (heap s) e = Some (StructV vs) \<and> length vs = length fs) entities rows"
    and "\<forall>f \<in> set (persisted fs). IsExported f"
    and "length (filter (\<lambda>f. column_name f = ''id'') fs) \<le> 1"
    and "GetTableName r (StructV (hd rows)) = Some t"
  shows "issued (snd (SaveAll r entities s)) =
           issued s @ [ExecCall (insert_query t fs (length entities))
                                (concat (map (persisted_values fs) rows))]"
proof -
  from assms(3,4) obtain first others vs rest where
    es: "entities = first # others" and rows: "rows = vs # rest"
    and first: "deref (heap s) first = Some (StructV vs)"
    by (cases entities; cases rows) auto
  have ptr: "implements (PtrT (EType r)) Entity"
    using assms(1,2) by (simp add: implements_ptr_defined is_defined_type_def)
  have tn: "GetTableName r (StructV vs) = Some t"
    using assms(7) rows by simp
  have exp: "\<forall>f \<in> set fs. \<not> skipped (id_auto fs) f \<longrightarrow> IsExported f"
    using assms(5) skipped_generated_key [OF assms(6)] by (simp add: persisted_def)
  have rv: "map (row_values (id_auto fs) fs) rows = map (persisted_values fs) rows"
    by (simp add: row_values_persisted [OF assms(6)])
  define q0 where "q0 = ''INSERT INTO '' @ t @ '' ('' @ Join (map column_name (persisted fs)) '','' @ '') VALUES ''"
  define g where "g = ''('' @ Join (replicate (length (persisted fs)) ''?'') '','' @ '')''"
  define phs where "phs = replicate (length (persisted fs)) ''?''"
  have build: "build_rows (id_auto fs) (heap s) fs phs (first # others) ([], q0) =
                 Inr (concat (map (persisted_values fs) rows),
                      q0 @ concat (replicate (length entities) (g @ '','')))"
  proof -
    have gq: "''('' @ Join phs '','' @ ''),'' = g @ '',''"
      by (simp add: g_def phs_def)
    show ?thesis
      using build_rows_structs [OF assms(4) exp, of phs "[]" q0]
      by (simp only: rv es gq append_Nil)
  qed
  have trim: "TrimSuffix (q0 @ concat (replicate (length entities) (g @ '',''))) '','' =
                insert_query t fs (length entities)"
  proof -
    have "0 < length entities" using assms(3) by simp
    from TrimSuffix_groups [OF this, of q0 g] show ?thesis
      by (simp only: insert_query_def q0_def g_def append_assoc)
  qed
  have "SaveAll r (first # others) s =
           (case db_Exec r (TrimSuffix (q0 @ concat (replicate (length entities) (g @ '',''))) '','')
                   (concat (map (persisted_values fs) rows)) s of
              (Inl err, s1) \<Rightarrow> (Inl err, s1)
            | (Inr result, s1) \<Rightarrow>
                (if id_auto fs then
                   (case LastInsertId result of
                      Inl msg \<Rightarrow> (Inl (DriverError msg), s1)
                    | Inr lid \<Rightarrow>
                        (case backfill fs (id_name fs) lid (first # others) 0 (heap s1) of
                           (res, h) \<Rightarrow> (res, s1\<lparr>heap := h\<rparr>)))
                 else (Inr (), s1)))"
    by (rule SaveAll_run [OF assms(1) ptr first tn build [unfolded q0_def phs_def], folded q0_def])
  then show ?thesis
    by (simp only: es [symmetric] trim issued_after_Exec)
qed

text \<open>The two sample entities: \<^verbatim>\<open>INSERT INTO sample_entities (name) VALUES (?),(?)\<close>.\<close>

theorem insert_statement_witness:
  "EType sample_repo = StructT [SampleEntity_Id, SampleEntity_Name] [''GetID'', ''GetTableName'', ''ToMap''] []
 \<and> implements (EType sample_repo) Entity
 \<and> list_all2 (\<lambda>e vs. deref (heap fresh) e = Some (StructV vs)
                \<and> length vs = length [SampleEntity_Id, SampleEntity_Name])
      two_pointers [[IntV 0, StrV ''test''], [IntV 0, StrV ''test2'']]
 \<and> list_all IsExported (persisted [SampleEntity_Id, SampleEntity_Name])
 \<and> length (filter (\<lambda>f. column_name f = ''id'') [SampleEntity_Id, SampleEntity_Name]) \<le> 1
 \<and> issued (snd (SaveAll sample_repo two_pointers fresh)) =
     [ExecCall ''INSERT INTO sample_entities (name) VALUES (?),(?)'' [StrV ''test'', StrV ''test2'']]"
proof -
  have bound: "implements (EType sample_repo) Entity"
    by code_simp
  have ne: "two_pointers \<noteq> []"
    by (simp add: two_pointers_def)
  have rows: "list_all2 (\<lambda>e vs. deref (heap fresh) e = Some (StructV vs)
                \<and> length vs = length [SampleEntity_Id, SampleEntity_Name])
      two_pointers [[IntV 0, StrV ''test''], [IntV 0, StrV ''test2'']]"
    by (simp add: two_pointers_def deref_def fresh_def two_entities_def)
  have exp: "list_all IsExported (persisted [SampleEntity_Id, SampleEntity_Name])"
    by code_simp
  then have exp': "\<forall>f \<in> set (persisted [SampleEntity_Id, SampleEntity_Name]). IsExported f"
    by (simp add: list_all_iff)
  have one: "length (filter (\<lambda>f. column_name f = ''id'') [SampleEntity_Id, SampleEntity_Name]) \<le> 1"
    by code_simp
  have tn: "GetTableName sample_repo (StructV (hd [[IntV 0, StrV ''test''], [IntV 0, StrV ''test2'']]))
              = Some ''sample_entities''"
    by (simp add: sample_repo_def SampleEntity_GetTableName_def)
  have q: "insert_query ''sample_entities'' [SampleEntity_Id, SampleEntity_Name] (length two_pointers)
             = ''INSERT INTO sample_entities (name) VALUES (?),(?)''"
    by code_simp
  have a: "concat (map (persisted_values [SampleEntity_Id, SampleEntity_Name])
             [[IntV 0, StrV ''test''], [IntV 0, StrV ''test2'']]) = [StrV ''test'', StrV ''test2'']"
    by code_simp
  have "issued fresh = []"
    by (simp add: fresh_def)
  with insert_statement [OF sample_struct bound ne rows exp' one tn]
  have "issued (snd (SaveAll sample_repo two_pointers fresh)) =
     [ExecCall ''INSERT INTO sample_entities (name) VALUES (?),(?)'' [StrV ''test'', StrV ''test2'']]"
    by (simp only: q a append_Nil)
  with sample_struct bound rows exp one show ?thesis
    by (intro conjI)
qed

subsection \<open>The identifiers \<^verbatim>\<open>SaveAll\<close> writes back\<close>

text \<open>
  C1, as amended: let \<^verbatim>\<open>SaveAll\<close> succeed on a non-empty list of pairwise distinct
  pointers to entities of a struct type whose key field \<open>kf\<close> is marked auto-generated.
  Then it made one statement, the connection accepted it and reported an identifier
  \<open>lid\<close> as \<^verbatim>\<open>LastInsertId\<close>, the key field has a signed integer kind of \<open>b\<close> bits, and
  afterwards the key field of the entity at position \<open>i\<close> holds \<open>lid + i\<close>, added in
  \<^verbatim>\<open>int64\<close> and converted to \<open>b\<close> bits. When \<open>lid\<close> and \<open>lid + N - 1\<close> fit \<open>b\<close> bits
  this is the integer \<open>lid + i\<close>: \<open>N\<close> consecutive, strictly increasing identifiers from
  \<open>lid\<close> on.
\<close>

theorem backfill_contiguous:
  assumes "SaveAll r entities s = (Inr (), s')"
    and "EType r = StructT fs vm pm" and "wf_fields fs"
    and "key_field fs = Some kf" and "auto_generated kf"
    and "entities \<noteq> []" and "distinct entities"
  shows "\<exists>q args result lid b j.
           issued s' = issued s @ [ExecCall q args]
         \<and> fst (Exec (DB r) (store s) q args) = Inr result \<and> LastInsertId result = Inr lid
         \<and> int_bits (Kind kf) = Some b \<and> j < length fs \<and> fs ! j = kf
         \<and> (\<forall>i < length entities. \<exists>a vs. entities ! i = Some a \<and> heap s' a = Some (StructV vs)
                \<and> j < length vs
                \<and> vs ! j = IntV (signed_take_bit (b - 1) (sint (lid + of_nat i))))
         \<and> (- (2 ^ (b - 1)) \<le> sint lid \<and> sint lid + int (length entities) \<le> 2 ^ (b - 1)
              \<longrightarrow> (\<forall>i < length entities. \<exists>a vs. entities ! i = Some a \<and> heap s' a = Some (StructV vs)
                     \<and> j < length vs \<and> vs ! j = IntV (sint lid + int i)))"
proof -
  from assms(6) obtain first others where es: "entities = first # others"
    by (cases entities) auto
  from SaveAll_outcome_auto [OF assms(1) [unfolded es] assms(2,4,5)]
  obtain q vals out s1 result lid h where
    ex: "db_Exec r q vals s = (out, s1)"
    and out: "out = Inr result" and lid: "LastInsertId result = Inr lid"
    and bf: "backfill fs (Name kf) lid entities 0 (heap s1) = (Inr (), h)"
    and s': "s' = s1\<lparr>heap := h\<rparr>"
    unfolding es by auto
  note f = db_Exec_facts [OF ex]
  from f(3) out have res: "fst (Exec (DB r) (store s) q vals) = Inr result"
    by (auto split: sum.splits)
  have iss: "issued s' = issued s @ [ExecCall q vals]"
    using s' f(2) by simp
  from assms(6) have "0 < length entities" by simp
  from backfill_assigns [OF bf assms(7) this] obtain j b where
    j: "FieldByName fs (Name kf) = Some j" "IsExported (fs ! j)" "int_bits (Kind (fs ! j)) = Some b"
    by auto
  from key_index [OF assms(3,4) j(1,2)] have jk: "j < length fs" "fs ! j = kf"
    by simp_all
  have each: "\<exists>a vs. entities ! i = Some a \<and> heap s' a = Some (StructV vs) \<and> j < length vs
                \<and> vs ! j = IntV (signed_take_bit (b - 1) (sint (lid + of_nat i)))"
    if "i < length entities" for i
    using backfill_assigns [OF bf assms(7) that] j s' by auto
  have range: "signed_take_bit (b - 1) (sint (lid + of_nat i)) = sint lid + int i"
    if "- (2 ^ (b - 1)) \<le> sint lid" "sint lid + int (length entities) \<le> 2 ^ (b - 1)"
      "i < length entities" for i
    using int_bits_cases [OF j(3)] that by (rule signed_take_bit_in_range)
  have each': "\<exists>a vs. entities ! i = Some a \<and> heap s' a = Some (StructV vs) \<and> j < length vs
                \<and> vs ! j = IntV (sint lid + int i)"
    if "- (2 ^ (b - 1)) \<le> sint lid" "sint lid + int (length entities) \<le> 2 ^ (b - 1)"
      "i < length entities" for i
    using each [OF that(3)] range [OF that] by simp
  from iss res lid j(3) jk each each' show ?thesis
    by blast
qed

text \<open>The two sample entities on the empty table get the identifiers 1 and 2.\<close>

theorem backfill_contiguous_witness:
  "SaveAll sample_repo two_pointers fresh = (Inr (), snd (SaveAll sample_repo two_pointers fresh))
 \<and> two_pointers \<noteq> [] \<and> distinct two_pointers
 \<and> (\<exists>q args result lid b j.
           issued (snd (SaveAll sample_repo two_pointers fresh)) = issued fresh @ [ExecCall q args]
         \<and> fst (Exec (DB sample_repo) (store fresh) q args) = Inr result \<and> LastInsertId result = Inr lid
         \<and> int_bits (Kind SampleEntity_Id) = Some b \<and> j < length [SampleEntity_Id, SampleEntity_Name]
         \<and> [SampleEntity_Id, SampleEntity_Name] ! j = SampleEntity_Id
         \<and> (\<forall>i < length two_pointers. \<exists>a vs. two_pointers ! i = Some a
                \<and> heap (snd (SaveAll sample_repo two_pointers fresh)) a = Some (StructV vs)
                \<and> j < length vs
                \<and> vs ! j = IntV (signed_take_bit (b - 1) (sint (lid + of_nat i))))
         \<and> (- (2 ^ (b - 1)) \<le> sint lid \<and> sint lid + int (length two_pointers) \<le> 2 ^ (b - 1)
              \<longrightarrow> (\<forall>i < length two_pointers. \<exists>a vs. two_pointers ! i = Some a
                     \<and> heap (snd (SaveAll sample_repo two_pointers fresh)) a = Some (StructV vs)
                     \<and> j < length vs \<and> vs ! j = IntV (sint lid + int i))))
 \<and> heap (snd (SaveAll sample_repo two_pointers fresh)) 0 = Some (StructV [IntV 1, StrV ''test''])
 \<and> heap (snd (SaveAll sample_repo two_pointers fresh)) 1 = Some (StructV [IntV 2, StrV ''test2''])"
proof -
  have ne: "two_pointers \<noteq> []" and dist: "distinct two_pointers"
    by (simp_all add: two_pointers_def)
  have h0: "heap (snd (SaveAll sample_repo two_pointers fresh)) 0 = Some (StructV [IntV 1, StrV ''test''])"
    by code_simp
  have h1: "heap (snd (SaveAll sample_repo two_pointers fresh)) 1 = Some (StructV [IntV 2, StrV ''test2''])"
    by code_simp
  from backfill_contiguous [OF sample_saved sample_struct sample_wf sample_key sample_auto ne dist]
    sample_saved ne dist h0 h1
  show ?thesis by (intro conjI)
qed

text \<open>
  Neither the distinctness nor the range can be dropped.
  \<^verbatim>\<open>SaveAll([]*SampleEntity{&e, &e})\<close> on the empty table succeeds, the backend reports
  1 for the first row, and the entity, which is at position 0 (and at position 1), ends
  with the identifier 2, not with \<open>1 + 0\<close>. And when the backend reports the largest
  \<^verbatim>\<open>int64\<close> for the first of two rows, the second entity ends with the smallest
  \<^verbatim>\<open>int64\<close>: the sum has wrapped around, and the identifiers do not increase.
\<close>

theorem contiguous_assignment_counterexample:
  "fst (SaveAll sample_repo [Some 0, Some 0] fresh) = Inr ()
 \<and> fst (Exec (DB sample_repo) (store fresh)
           ''INSERT INTO sample_entities (name) VALUES (?),(?)'' [StrV ''test'', StrV ''test''])
     = Inr \<lparr>LastInsertId = Inr 1\<rparr>
 \<and> issued (snd (SaveAll sample_repo [Some 0, Some 0] fresh)) =
     [ExecCall ''INSERT INTO sample_entities (name) VALUES (?),(?)'' [StrV ''test'', StrV ''test'']]
 \<and> heap (snd (SaveAll sample_repo [Some 0, Some 0] fresh)) 0 = Some (StructV [IntV 2, StrV ''test''])
 \<and> IntV 2 \<noteq> IntV (1 + 0)
 \<and> fst (SaveAll sample_repo [Some 0, Some 1] at_limit) = Inr ()
 \<and> fst (Exec (DB sample_repo) (store at_limit)
           ''INSERT INTO sample_entities (name) VALUES (?),(?)'' [StrV ''test'', StrV ''test2''])
     = Inr \<lparr>LastInsertId = Inr 9223372036854775807\<rparr>
 \<and> issued (snd (SaveAll sample_repo [Some 0, Some 1] at_limit)) =
     [ExecCall ''INSERT INTO sample_entities (name) VALUES (?),(?)'' [StrV ''test'', StrV ''test2'']]
 \<and> heap (snd (SaveAll sample_repo [Some 0, Some 1] at_limit)) 0
     = Some (StructV [IntV 9223372036854775807, StrV ''test''])
 \<and> heap (snd (SaveAll sample_repo [Some 0, Some 1] at_limit)) 1
     = Some (StructV [IntV (- 9223372036854775808), StrV ''test2''])
 \<and> IntV (- 9223372036854775808) \<noteq> IntV (9223372036854775807 + 1)"
proof -
  have a1: "fst (SaveAll sample_repo [Some 0, Some 0] fresh) = Inr ()"
    by code_simp
  have a2: "fst (Exec (DB sample_repo) (store fresh)
           ''INSERT INTO sample_entities (name) VALUES (?),(?)'' [StrV ''test'', StrV ''test''])
     = Inr \<lparr>LastInsertId = Inr 1\<rparr>"
    by (simp add: sample_repo_def mem_Exec_def starts_with_def fresh_def)
  have a3: "issued (snd (SaveAll sample_repo [Some 0, Some 0] fresh)) =
     [ExecCall ''INSERT INTO sample_entities (name) VALUES (?),(?)'' [StrV ''test'', StrV ''test'']]"
    by code_simp
  have a4: "heap (snd (SaveAll sample_repo [Some 0, Some 0] fresh)) 0 = Some (StructV [IntV 2, StrV ''test''])"
    by code_simp
  have a5: "IntV 2 \<noteq> IntV (1 + 0)"
    by simp
  have b1: "fst (SaveAll sample_repo [Some 0, Some 1] at_limit) = Inr ()"
    by code_simp
  have b2: "fst (Exec (DB sample_repo) (store at_limit)
           ''INSERT INTO sample_entities (name) VALUES (?),(?)'' [StrV ''test'', StrV ''test2''])
     = Inr \<lparr>LastInsertId = Inr 9223372036854775807\<rparr>"
    by (simp add: sample_repo_def mem_Exec_def starts_with_def at_limit_def)
  have b3: "issued (snd (SaveAll sample_repo [Some 0, Some 1] at_limit)) =
     [ExecCall ''INSERT INTO sample_entities (name) VALUES (?),(?)'' [StrV ''test'', StrV ''test2'']]"
    by code_simp
  have b4: "heap (snd (SaveAll sample_repo [Some 0, Some 1] at_limit)) 0
     = Some (StructV [IntV 9223372036854775807, StrV ''test''])"
    by code_simp
  have b5: "heap (snd (SaveAll sample_repo [Some 0, Some 1] at_limit)) 1
     = Some (StructV [IntV (- 9223372036854775808), StrV ''test2''])"
    by code_simp
  have b6: "IntV (- 9223372036854775808) \<noteq> IntV (9223372036854775807 + 1)"
    by simp
  from a1 a2 a3 a4 a5 b1 b2 b3 b4 b5 b6 show ?thesis
    by (intro conjI)
qed

subsection \<open>What \<^verbatim>\<open>SaveAll\<close> leaves alone\<close>

text \<open>
  C9: whatever \<^verbatim>\<open>SaveAll\<close> returns for entities of a struct type, every address of the
  heap holds afterwards what it held before, unless it is one of the entities passed
  and the key field is marked auto-generated: then the entity differs from what the
  caller supplied at most in the key field, the field whose storage name is \<^verbatim>\<open>id\<close>.
  When the key field is not marked auto-generated the heap is unchanged.
\<close>

theorem SaveAll_frame:
  assumes "SaveAll r entities s = (res, s')" and "EType r = StructT fs vm pm" and "wf_fields fs"
  shows "(\<forall>a. heap s' a = heap s a
            \<or> (Some a \<in> set entities \<and>
               (\<exists>kf j vs v. key_field fs = Some kf \<and> auto_generated kf
                   \<and> j < length fs \<and> fs ! j = kf \<and> column_name (fs ! j) = ''id'' \<and> j < length vs
                   \<and> heap s a = Some (StructV vs) \<and> heap s' a = Some (StructV (vs[j := v])))))
       \<and> (\<not> (\<exists>kf. key_field fs = Some kf \<and> auto_generated kf) \<longrightarrow> heap s' = heap s)"
proof (intro conjI allI impI)
  fix a
  show "heap s' a = heap s a
            \<or> (Some a \<in> set entities \<and>
               (\<exists>kf j vs v. key_field fs = Some kf \<and> auto_generated kf
                   \<and> j < length fs \<and> fs ! j = kf \<and> column_name (fs ! j) = ''id'' \<and> j < length vs
                   \<and> heap s a = Some (StructV vs) \<and> heap s' a = Some (StructV (vs[j := v]))))"
    by (rule SaveAll_frame_at [OF assms])
next
  assume no: "\<not> (\<exists>kf. key_field fs = Some kf \<and> auto_generated kf)"
  show "heap s' = heap s"
  proof
    fix a
    from SaveAll_frame_at [OF assms, of a] no show "heap s' a = heap s a"
      by blast
  qed
qed

text \<open>
  The first sample entity: only its \<^verbatim>\<open>Id\<close> changes, from 0 to 1; address 7, which was
  not passed, is as before.
\<close>

theorem SaveAll_frame_witness:
  "SaveAll sample_repo two_pointers fresh = (Inr (), snd (SaveAll sample_repo two_pointers fresh))
 \<and> wf_fields [SampleEntity_Id, SampleEntity_Name]
 \<and> heap fresh 0 = Some (StructV [IntV 0, StrV ''test''])
 \<and> heap (snd (SaveAll sample_repo two_pointers fresh)) 0 = Some (StructV [IntV 1, StrV ''test''])
 \<and> (heap (snd (SaveAll sample_repo two_pointers fresh)) 0 = heap fresh 0
      \<or> (Some 0 \<in> set two_pointers \<and>
          (\<exists>kf j vs v. key_field [SampleEntity_Id, SampleEntity_Name] = Some kf \<and> auto_generated kf
              \<and> j < length [SampleEntity_Id, SampleEntity_Name]
              \<and> [SampleEntity_Id, SampleEntity_Name] ! j = kf
              \<and> column_name ([SampleEntity_Id, SampleEntity_Name] ! j) = ''id'' \<and> j < length vs
              \<and> heap fresh 0 = Some (StructV vs)
              \<and> heap (snd (SaveAll sample_repo two_pointers fresh)) 0 = Some (StructV (vs[j := v])))))
 \<and> heap (snd (SaveAll sample_repo two_pointers fresh)) 7 = heap fresh 7"
proof -
  note f = SaveAll_frame [OF sample_saved sample_struct sample_wf]
  have h0: "heap fresh 0 = Some (StructV [IntV 0, StrV ''test''])"
    by (simp add: fresh_def two_entities_def)
  have h0': "heap (snd (SaveAll sample_repo two_pointers fresh)) 0 = Some (StructV [IntV 1, StrV ''test''])"
    by code_simp
  have "Some 7 \<notin> set two_pointers"
    by (simp add: two_pointers_def)
  with f have h7: "heap (snd (SaveAll sample_repo two_pointers fresh)) 7 = heap fresh 7"
    by blast
  from f have "heap (snd (SaveAll sample_repo two_pointers fresh)) 0 = heap fresh 0
      \<or> (Some 0 \<in> set two_pointers \<and>
          (\<exists>kf j vs v. key_field [SampleEntity_Id, SampleEntity_Name] = Some kf \<and> auto_generated kf
              \<and> j < length [SampleEntity_Id, SampleEntity_Name]
              \<and> [SampleEntity_Id, SampleEntity_Name] ! j = kf
              \<and> column_name ([SampleEntity_Id, SampleEntity_Name] ! j) = ''id'' \<and> j < length vs
              \<and> heap fresh 0 = Some (StructV vs)
              \<and> heap (snd (SaveAll sample_repo two_pointers fresh)) 0 = Some (StructV (vs[j := v]))))"
    by blast
  with sample_saved sample_wf h0 h0' h7 show ?thesis
    by (intro conjI)
qed

subsection \<open>The interface assertion of \<^verbatim>\<open>SaveAll\<close>\<close>

text \<open>
  C8, as amended: \<^verbatim>\<open>SaveAll\<close> returns the validation error, and leaves the state
  alone, when the first entity pointer is not \<^verbatim>\<open>nil\<close> and \<^verbatim>\<open>*E\<close> does not implement
  \<^verbatim>\<open>Entity\<close>. Under the bound \<^verbatim>\<open>E Entity[ID]\<close> this cannot happen when \<^verbatim>\<open>E\<close> is a
  defined type that is neither a pointer nor an interface (a struct type, say): then
  \<^verbatim>\<open>*E\<close> implements \<^verbatim>\<open>Entity\<close> and \<^verbatim>\<open>SaveAll\<close> never returns the validation error. When
  \<^verbatim>\<open>E\<close> is a pointer type or an interface type, \<^verbatim>\<open>*E\<close> has no methods and the
  assertion fails.
\<close>

theorem validation_branch:
  "(deref (heap s) first = Some v \<and> \<not> implements (PtrT (EType r)) Entity
      \<longrightarrow> SaveAll r (first # rest) s = (Inl ValidationError, s))
 \<and> (implements (EType r) Entity \<and> is_defined_type (EType r)
      \<longrightarrow> implements (PtrT (EType r)) Entity \<and> fst (SaveAll r entities s) \<noteq> Inl ValidationError)
 \<and> (\<not> is_defined_type (EType r) \<longrightarrow> \<not> implements (PtrT (EType r)) Entity)"
proof (intro conjI impI)
  assume "deref (heap s) first = Some v \<and> \<not> implements (PtrT (EType r)) Entity"
  then show "SaveAll r (first # rest) s = (Inl ValidationError, s)"
    by (simp add: SaveAll_def ValidationError_def)
next
  assume a: "implements (EType r) Entity \<and> is_defined_type (EType r)"
  then show p: "implements (PtrT (EType r)) Entity"
    by (simp add: implements_ptr_defined)
  show "fst (SaveAll r entities s) \<noteq> Inl ValidationError"
  proof
    assume "fst (SaveAll r entities s) = Inl ValidationError"
    then have "SaveAll r entities s = (Inl (Errorf ''entity does not implement the Entity interface''), snd (SaveAll r entities s))"
      by (simp add: ValidationError_def prod_eq_iff)
    from SaveAll_Errorf [OF this] p show False by simp
  qed
next
  assume "\<not> is_defined_type (EType r)"
  then show "\<not> implements (PtrT (EType r)) Entity"
    by (rule not_implements_ptr)
qed

text \<open>
  \<^verbatim>\<open>*SampleEntity\<close> for \<^verbatim>\<open>E\<close> reaches the error; \<^verbatim>\<open>SampleEntity\<close> for \<^verbatim>\<open>E\<close> passes the
  assertion.
\<close>

theorem validation_branch_witness:
  "deref (heap boxed) (Some 0) = Some (PtrV (Some 1))
 \<and> \<not> is_defined_type (EType pointer_repo)
 \<and> \<not> implements (PtrT (EType pointer_repo)) Entity
 \<and> SaveAll pointer_repo [Some 0] boxed = (Inl ValidationError, boxed)
 \<and> implements (EType sample_repo) Entity \<and> is_defined_type (EType sample_repo)
 \<and> implements (PtrT (EType sample_repo)) Entity
 \<and> fst (SaveAll sample_repo two_pointers fresh) \<noteq> Inl ValidationError"
proof -
  have d: "deref (heap boxed) (Some 0) = Some (PtrV (Some 1))"
    by (simp add: deref_def boxed_def)
  have nd: "\<not> is_defined_type (EType pointer_repo)"
    by (simp add: is_defined_type_def pointer_repo_def)
  have b: "implements (EType sample_repo) Entity \<and> is_defined_type (EType sample_repo)"
    by (simp add: is_defined_type_def sample_repo_def SampleEntity_def implements_def Entity_def)
  note v1 = validation_branch [of boxed "Some 0" "PtrV (Some 1)" pointer_repo "[]" two_pointers]
  note v2 = validation_branch [of fresh "Some 0" "StructV []" sample_repo "[]" two_pointers]
  from v1 nd have ni: "\<not> implements (PtrT (EType pointer_repo)) Entity"
    by blast
  with v1 d have "SaveAll pointer_repo [Some 0] boxed = (Inl ValidationError, boxed)"
    by blast
  moreover from v2 b have "implements (PtrT (EType sample_repo)) Entity
      \<and> fst (SaveAll sample_repo two_pointers fresh) \<noteq> Inl ValidationError"
    by blast
  ultimately show ?thesis
    using d nd ni b by blast
qed

text \<open>
  The branch is reachable under the bound: \<^verbatim>\<open>*SampleEntity\<close> implements \<^verbatim>\<open>Entity\<close>, so
  it is a type argument the bound admits, and \<^verbatim>\<open>SaveAll\<close> of one entity of it returns
  the validation error.
\<close>

theorem validation_reachable_counterexample:
  "implements (EType pointer_repo) Entity
 \<and> SaveAll pointer_repo [Some 0] boxed = (Inl ValidationError, boxed)"
  by (simp add: SaveAll_def pointer_repo_def sample_repo_def SampleEntity_def implements_def
      Entity_def ValidationError_def boxed_def deref_def)

subsection \<open>A key that is not a signed integer\<close>

text \<open>
  C10: let the key field of a struct type be marked auto-generated and have a kind
  that is not one of \<^verbatim>\<open>Int\<close>, \<^verbatim>\<open>Int8\<close>, \<^verbatim>\<open>Int16\<close>, \<^verbatim>\<open>Int32\<close>, \<^verbatim>\<open>Int64\<close>. Then the last
  loop of \<^verbatim>\<open>SaveAll\<close> panics on every non-empty list, \<^verbatim>\<open>SaveAll\<close> never succeeds on
  one, and whenever its statement was made, was accepted by the connection and an
  identifier was reported, \<^verbatim>\<open>SaveAll\<close> panics; it does not return an error.
\<close>

theorem backfill_needs_signed_key:
  assumes "EType r = StructT fs vm pm" and "wf_fields fs"
    and "key_field fs = Some kf" and "auto_generated kf" and "int_bits (Kind kf) = None"
    and "entities \<noteq> []"
  shows "fst (backfill fs (Name kf) lid entities i h) = Inl Panic
       \<and> fst (SaveAll r entities s) \<noteq> Inr ()
       \<and> (\<forall>q args result lid'.
            issued (snd (SaveAll r entities s)) = issued s @ [ExecCall q args]
            \<and> fst (Exec (DB r) (store s) q args) = Inr result \<and> LastInsertId result = Inr lid'
            \<longrightarrow> fst (SaveAll r entities s) = Inl Panic)"
proof -
  from assms(6) obtain first others where es: "entities = first # others"
    by (cases entities) auto
  have bf: "fst (backfill fs (Name kf) x entities k h0) = Inl Panic" for x k h0
  proof (cases "set_key fs (Name kf) h0 first (x + of_nat k)")
    case None
    then show ?thesis by (simp add: es)
  next
    case (Some h1)
    from set_key_Some [OF Some] obtain j b where
      j: "FieldByName fs (Name kf) = Some j" "IsExported (fs ! j)" "int_bits (Kind (fs ! j)) = Some b"
      by blast
    from key_index [OF assms(2,3) j(1,2)] j(3) assms(5) show ?thesis by simp
  qed
  obtain res s' where sv: "SaveAll r entities s = (res, s')"
    by (cases "SaveAll r entities s")
  from SaveAll_outcome_auto [OF sv [unfolded es] assms(1,3,4)] consider
    (early) "s' = s" "res = Inl Panic \<or> res = Inl ValidationError"
    | (exec) q vals out s1 where "db_Exec r q vals s = (out, s1)"
        "(\<exists>err. out = Inl err \<and> res = Inl err \<and> s' = s1)
           \<or> (\<exists>result msg. out = Inr result \<and> LastInsertId result = Inl msg
                  \<and> res = Inl (DriverError msg) \<and> s' = s1)
           \<or> (\<exists>result lid h. out = Inr result \<and> LastInsertId result = Inr lid
                  \<and> backfill fs (Name kf) lid entities 0 (heap s1) = (res, h)
                  \<and> s' = s1\<lparr>heap := h\<rparr>)"
    unfolding es by blast
  then have "res \<noteq> Inr ()
       \<and> (\<forall>q args result lid'.
            issued s' = issued s @ [ExecCall q args]
            \<and> fst (Exec (DB r) (store s) q args) = Inr result \<and> LastInsertId result = Inr lid'
            \<longrightarrow> res = Inl Panic)"
  proof cases
    case early
    then show ?thesis by (auto simp: ValidationError_def)
  next
    case exec
    note f = db_Exec_facts [OF exec(1)]
    have iss: "issued s' = issued s @ [ExecCall q vals]"
      using exec(2) f(2) by auto
    have panic: "res = Inl Panic"
      if "out = Inr result" "LastInsertId result = Inr x" for result x
      using exec(2) that bf [of x 0 "heap s1"] by auto
    have notok: "res \<noteq> Inr ()"
    proof
      assume ok: "res = Inr ()"
      with exec(2) obtain lid0 h0 where "backfill fs (Name kf) lid0 entities 0 (heap s1) = (Inr (), h0)"
        by auto
      with bf [of lid0 0 "heap s1"] show False by simp
    qed
    have "res = Inl Panic"
      if "issued s' = issued s @ [ExecCall q' args]"
        "fst (Exec (DB r) (store s) q' args) = Inr result" "LastInsertId result = Inr x"
      for q' args result x
    proof -
      from that(1) iss have "q' = q" "args = vals" by simp_all
      with that(2) f(3) have "out = Inr result" by simp
      from panic [OF this that(3)] show ?thesis .
    qed
    with notok show ?thesis by blast
  qed
  with sv bf show ?thesis by simp
qed

text \<open>
  A \<^verbatim>\<open>uint64\<close> key: the row is inserted, the identifier 1 is reported, and
  \<^verbatim>\<open>SaveAll\<close> panics.
\<close>

theorem backfill_needs_signed_key_witness:
  "key_field [UnsignedEntity_Id, SampleEntity_Name] = Some UnsignedEntity_Id
 \<and> auto_generated UnsignedEntity_Id \<and> int_bits (Kind UnsignedEntity_Id) = None
 \<and> issued (snd (SaveAll unsigned_repo [Some 0] one_unsigned)) =
     issued one_unsigned @ [ExecCall ''INSERT INTO sample_entities (name) VALUES (?)'' [StrV ''test'']]
 \<and> fst (Exec (DB unsigned_repo) (store one_unsigned)
           ''INSERT INTO sample_entities (name) VALUES (?)'' [StrV ''test''])
     = Inr \<lparr>LastInsertId = Inr 1\<rparr>
 \<and> fst (SaveAll unsigned_repo [Some 0] one_unsigned) = Inl Panic
 \<and> fst (backfill [UnsignedEntity_Id, SampleEntity_Name] (Name UnsignedEntity_Id) 1 [Some 0] 0
          (heap one_unsigned)) = Inl Panic"
proof -
  have k: "int_bits (Kind UnsignedEntity_Id) = None"
    by (simp add: UnsignedEntity_Id_def)
  have ne: "[Some (0::nat)] \<noteq> []"
    by simp
  have iss: "issued (snd (SaveAll unsigned_repo [Some 0] one_unsigned)) =
     issued one_unsigned @ [ExecCall ''INSERT INTO sample_entities (name) VALUES (?)'' [StrV ''test'']]"
    by code_simp
  have ex: "fst (Exec (DB unsigned_repo) (store one_unsigned)
           ''INSERT INTO sample_entities (name) VALUES (?)'' [StrV ''test''])
     = Inr \<lparr>LastInsertId = Inr 1\<rparr>"
    by (simp add: unsigned_repo_def sample_repo_def mem_Exec_def starts_with_def one_unsigned_def)
  have lid: "LastInsertId \<lparr>LastInsertId = Inr 1\<rparr> = Inr (1 :: 64 word)"
    by simp
  note t = backfill_needs_signed_key [OF unsigned_struct unsigned_wf unsigned_key unsigned_auto k ne,
      of 1 0 "heap one_unsigned" one_unsigned]
  from t iss ex lid have "fst (SaveAll unsigned_repo [Some 0] one_unsigned) = Inl Panic"
    by blast
  with t unsigned_key unsigned_auto k iss ex show ?thesis
    by (intro conjI) blast+
qed

end
